theory Spec2Isabelle
  imports Complex_Main "HOL-Library.Sublist"
begin

section \<open>Python strings\<close>

text \<open>
  A Python \<open>str\<close> is a sequence of code points. Functions that only slice, measure or
  concatenate are modelled over arbitrary lists. Where the source classifies or maps
  characters (\<open>strip\<close>, \<open>split\<close>, \<open>lower\<close>, \<open>int\<close>), a character is an Isabelle
  \<open>char\<close> read as a code point in the range 0..255.
\<close>

text \<open>\<open>str.isspace\<close> on one character: the code points below 256 that Python treats
  as whitespace.\<close>

definition is_space :: "char \<Rightarrow> bool" where
  "is_space c = ((of_char c :: nat) \<in> {9, 10, 11, 12, 13, 28, 29, 30, 31, 32, 133, 160})"

text \<open>\<open>s.strip()\<close>: remove leading and trailing whitespace.\<close>

definition strip :: "string \<Rightarrow> string" where
  "strip s = rev (dropWhile is_space (rev (dropWhile is_space s)))"

text \<open>\<open>s.strip(chars)\<close> for a one-character argument, as in \<open>e.strip('.')\<close>.\<close>

definition strip_char :: "char \<Rightarrow> string \<Rightarrow> string" where
  "strip_char d s = rev (dropWhile (\<lambda>c. c = d) (rev (dropWhile (\<lambda>c. c = d) s)))"

text \<open>\<open>str.lower\<close> on one code point below 256: A-Z and the accented capitals
  192..222 (except the multiplication sign 215) move up by 32.\<close>

definition lower_char :: "char \<Rightarrow> char" where
  "lower_char c =
     (let n = (of_char c :: nat)
      in if (65 \<le> n \<and> n \<le> 90) \<or> (192 \<le> n \<and> n \<le> 222 \<and> n \<noteq> 215)
         then char_of (n + 32) else c)"

definition lower :: "string \<Rightarrow> string" where
  "lower s = map lower_char s"

text \<open>\<open>s.split()\<close>: the maximal runs of non-whitespace characters, in order.\<close>

fun split_aux :: "string \<Rightarrow> string \<Rightarrow> string list" where
  "split_aux cur [] = (if cur = [] then [] else [cur])"
| "split_aux cur (c # cs) =
     (if is_space c then (if cur = [] then split_aux [] cs else cur # split_aux [] cs)
      else split_aux (cur @ [c]) cs)"

definition split :: "string \<Rightarrow> string list" where
  "split s = split_aux [] s"

text \<open>\<open>int(x)\<close> in base 10 on a token without whitespace: an optional sign, then decimal
  digits, where single underscores may stand between digits. \<open>None\<close> is the
  \<open>ValueError\<close>. The interpreter's configurable limit on the number of digits is not
  part of the model.\<close>

definition is_digit :: "char \<Rightarrow> bool" where
  "is_digit c = (48 \<le> (of_char c :: nat) \<and> (of_char c :: nat) \<le> 57)"

fun int_body :: "bool \<Rightarrow> nat \<Rightarrow> string \<Rightarrow> nat option" where
  "int_body prev_digit acc [] = (if prev_digit then Some acc else None)"
| "int_body prev_digit acc (c # cs) =
     (if is_digit c then int_body True (10 * acc + (of_char c - 48)) cs
      else if c = CHR ''_'' \<and> prev_digit then int_body False acc cs
      else None)"

definition py_int :: "string \<Rightarrow> int option" where
  "py_int x =
     (case x of
        [] \<Rightarrow> None
      | c # cs \<Rightarrow>
          if c = CHR ''+'' then map_option int (int_body False 0 cs)
          else if c = CHR ''-'' then map_option (\<lambda>n. - int n) (int_body False 0 cs)
          else map_option int (int_body False 0 x))"

text \<open>\<open>str(n)\<close> for a non-negative integer.\<close>

function str_nat :: "nat \<Rightarrow> string" where
  "str_nat n = (if n < 10 then [char_of (48 + n)]
                else str_nat (n div 10) @ [char_of (48 + n mod 10)])"
  by pat_completeness auto
termination
  by (relation "measure id") auto

declare str_nat.simps [simp del]

section \<open>Configuration\<close>

definition DEFAULT_RELEVANT_EXTENSIONS :: "string set" where
  "DEFAULT_RELEVANT_EXTENSIONS =
     {''.py'', ''.js'', ''.ts'', ''.java'', ''.c'', ''.cpp'', ''.h'', ''.hpp'', ''.cs'', ''.go'',
      ''.rb'', ''.php'',
      ''.html'', ''.htm'', ''.css'', ''.scss'', ''.less'',
      ''.json'', ''.yaml'', ''.yml'', ''.xml'', ''.ini'', ''.toml'', ''.env'',
      ''.sh'', ''.bash'', ''.ps1'',
      ''.sql'', ''.md'', ''.txt'',
      ''.dockerfile'', ''dockerfile'', ''.tf'', ''.hcl''}"

definition DEFAULT_EXCLUDED_EXTENSIONS :: "string set" where
  "DEFAULT_EXCLUDED_EXTENSIONS =
     {''.pyc'', ''.pyo'', ''.o'', ''.so'', ''.dll'', ''.exe'',
      ''.log'', ''.tmp'', ''.bak'', ''.swp'',
      ''.ds_store'',
      ''.jpg'', ''.jpeg'', ''.png'', ''.gif'', ''.bmp'', ''.tiff'', ''.webp'',
      ''.mp3'', ''.wav'', ''.aac'', ''.flac'', ''.ogg'',
      ''.mp4'', ''.mov'', ''.avi'', ''.mkv'', ''.webm'',
      ''.zip'', ''.tar'', ''.gz'', ''.rar'', ''.7z'',
      ''.pdf'', ''.doc'', ''.docx'', ''.xls'', ''.xlsx'', ''.ppt'', ''.pptx''}"

definition DEFAULT_EXCLUDED_FILENAMES_PATTERNS :: "string set" where
  "DEFAULT_EXCLUDED_FILENAMES_PATTERNS =
     {''.gitignore'', ''license'', ''node_modules'', ''venv'', ''.venv'', ''dist'', ''build'',
      ''__pycache__'', ''.git'', ''.svn'', ''.hg'',
      ''package-lock.json'', ''yarn.lock'', ''composer.lock'', ''gemfile.lock'',
      ''pipfile.lock''}"

section \<open>Normalisation of extension and pattern lists\<close>

text \<open>An \<open>Optional[List[str]]\<close> argument is a \<open>string list option\<close>; \<open>not extensions\<close>
  holds for \<open>None\<close> and for the empty list.\<close>

definition normalize_extensions :: "string list option \<Rightarrow> string set" where
  "normalize_extensions extensions =
     (case extensions of
        None \<Rightarrow> {}
      | Some es \<Rightarrow>
          if es = [] then {}
          else (\<lambda>e. if strip e \<noteq> [] then CHR ''.'' # lower (strip_char CHR ''.'' e) else [])
                 ` set es - {[]})"

definition normalize_patterns :: "string list option \<Rightarrow> string set" where
  "normalize_patterns patterns =
     (case patterns of
        None \<Rightarrow> {}
      | Some ps \<Rightarrow>
          if ps = [] then {}
          else (\<lambda>p. strip_char CHR ''/'' (lower p)) ` {p \<in> set ps. strip p \<noteq> []})"

section \<open>Paths\<close>

text \<open>A \<open>Path\<close> is the list of its parts. \<open>name\<close> is the last part; \<open>suffix\<close> follows
  pathlib: with \<open>i = name.rfind('.')\<close>, it is \<open>name[i:]\<close> when \<open>0 < i < len(name) - 1\<close> and
  the empty string otherwise.\<close>

type_synonym path = "string list"

datatype py_error = ValueError | EOFError

definition path_name :: "path \<Rightarrow> string" where
  "path_name p = (if p = [] then [] else last p)"

definition path_suffix :: "path \<Rightarrow> string" where
  "path_suffix p =
     (let name = path_name p;
          r = length (takeWhile (\<lambda>c. c \<noteq> CHR ''.'') (rev name))
      in if CHR ''.'' \<in> set name \<and> 0 < r \<and> Suc r < length name
         then drop (length name - Suc r) name else [])"

text \<open>\<open>p.relative_to(other)\<close>: the parts of \<open>p\<close> below \<open>other\<close>, or \<open>ValueError\<close>
  when \<open>other\<close> is not a prefix of \<open>p\<close>.\<close>

definition relative_to :: "path \<Rightarrow> path \<Rightarrow> py_error + path" where
  "relative_to p other = (if prefix other p then Inr (drop (length other) p) else Inl ValueError)"

text \<open>\<open>str\<close> of a relative path.\<close>

fun join_parts :: "path \<Rightarrow> string" where
  "join_parts [] = []"
| "join_parts [x] = x"
| "join_parts (x # y # ys) = x @ ''/'' @ join_parts (y # ys)"

definition path_str :: "path \<Rightarrow> string" where
  "path_str parts = (if parts = [] then ''.'' else join_parts parts)"

section \<open>PathFilter and Discoverer\<close>

definition should_prune_dir :: "string \<Rightarrow> string set \<Rightarrow> bool" where
  "should_prune_dir dirname excluded_patterns = (lower dirname \<in> excluded_patterns)"

definition is_excluded :: "path \<Rightarrow> path \<Rightarrow> string set \<Rightarrow> string set \<Rightarrow> bool" where
  "is_excluded file_path root_dir excluded_extensions excluded_filenames_patterns =
     (let filename_lower = lower (path_name file_path);
          extension_lower = lower (path_suffix file_path)
      in if extension_lower \<in> excluded_extensions then True
         else if filename_lower \<in> excluded_filenames_patterns then True
         else (case relative_to file_path root_dir of
                 Inl e \<Rightarrow> False
               | Inr relative_path_parts \<Rightarrow>
                   list_ex (\<lambda>part. lower part \<in> excluded_filenames_patterns)
                           (butlast relative_path_parts)))"

text \<open>The directory tree below the scan root, as the filesystem collaborator shows it:
  each directory lists its subdirectories (name and contents) and its file names.
  Symbolic links to directories, which \<open>os.walk\<close> lists but does not follow, are not
  part of the model.\<close>

datatype fs_dir = Dir (subdirs: "(string \<times> fs_dir) list") (files: "string list")

text \<open>\<open>os.walk(top, topdown=True)\<close>. The caller edits \<open>dirnames\<close> in place before the
  generator resumes, and the walk descends only into the names that remain; \<open>keep\<close> is
  that edit. Each triple is (dirpath, dirnames after the edit, filenames).\<close>

fun os_walk :: "(string \<Rightarrow> bool) \<Rightarrow> path \<Rightarrow> fs_dir \<Rightarrow> (path \<times> string list \<times> string list) list" where
  "os_walk keep dirpath (Dir subs fs) =
     (dirpath, filter keep (map fst subs), fs)
       # concat (map (\<lambda>(d, t). os_walk keep (dirpath @ [d]) t)
                     (filter (\<lambda>(d, t). keep d) subs))"

text \<open>\<open>discover_code_files\<close>, with the resolved root and the tree below it in place of
  \<open>directory_str\<close>; the progress lines it prints are left out. Besides the list it
  returns, the function acts on the filesystem: its \<open>for\<close> loop makes \<open>os.walk\<close> list
  directories. The result is the pair of \<open>discovered_files\<close> and the passes of that loop
  in order, one per directory listed (dirpath, dirnames after the pruning assignment,
  filenames). Whether a directory is pruned shows only there: a file below an excluded
  directory is rejected by \<open>is_excluded\<close> in any case.\<close>

definition discover_code_files ::
    "path \<Rightarrow> fs_dir \<Rightarrow> string list option \<Rightarrow> string list option \<Rightarrow> string list option
     \<Rightarrow> path list \<times> (path \<times> string list \<times> string list) list" where
  "discover_code_files abs_root_dir tree include_ext_cli exclude_ext_cli exclude_files_cli =
     (let cli_include_extensions = normalize_extensions include_ext_cli;
          current_include_extensions =
            (if cli_include_extensions \<noteq> {} then cli_include_extensions
             else DEFAULT_RELEVANT_EXTENSIONS);
          current_excluded_extensions =
            DEFAULT_EXCLUDED_EXTENSIONS \<union> normalize_extensions exclude_ext_cli;
          current_excluded_filenames_patterns =
            DEFAULT_EXCLUDED_FILENAMES_PATTERNS \<union> normalize_patterns exclude_files_cli;
          walked =
            os_walk (\<lambda>d. \<not> should_prune_dir d current_excluded_filenames_patterns)
              abs_root_dir tree
      in (concat (map (\<lambda>(dirpath, dirnames, filenames).
           concat (map (\<lambda>filename.
             (let file_path = dirpath @ [filename]
              in if is_excluded file_path abs_root_dir current_excluded_extensions
                      current_excluded_filenames_patterns then []
                 else (let ext_lower = lower (path_suffix file_path);
                           filename_lower = lower (path_name file_path);
                           is_relevant =
                             (if cli_include_extensions \<noteq> {} then
                                ext_lower \<in> current_include_extensions
                                \<or> filename_lower \<in> current_include_extensions
                              else if current_include_extensions \<noteq> {} then
                                ext_lower \<in> current_include_extensions
                                \<or> filename_lower \<in> current_include_extensions
                              else True)
                       in if is_relevant then [file_path] else []))) filenames))
         walked),
          walked))"

section \<open>InteractiveSelector\<close>

text \<open>One entry of \<open>selectable_files\<close> (a dict with the keys \<open>id\<close>, \<open>path_obj\<close>,
  \<open>rel_path_str\<close> and \<open>selected\<close>).\<close>

record entry =
  id_entry :: int
  path_obj :: path
  rel_path_str :: string
  selected :: bool

text \<open>The lines the review stage prints, one constructor per \<open>print\<close>. Where Python
  prints a set, or one line per element of a set, the payload is the set.\<close>

datatype msg =
    UpdatedFileList
  | NoFilesRemaining
  | FoundFiles nat
  | ListedFile int string
  | FileReviewStage
  | NoFilesInitially
  | Options
  | AbortedCtrlC
  | AbortedByUser
  | AddedToExclusions "string set"
  | AllFilesExcluded
  | AlreadyExcludedOrInvalid "string set"
  | ExcludeUsage
  | CurrentSelections
  | NoFilesInList
  | SelectionLine bool int string
  | CurrentlyExcluded "string set"
  | AllSelected
  | NoFilesToSelect
  | AllDeselected
  | NoFilesToDeselect
  | NowSelected string bool
  | WarningNotFound "int set"
  | InvalidInput
  | NoFilesSelected
  | Proceeding nat

text \<open>\<open>_rebuild_selectable_list\<close>. \<open>relative_to\<close> may raise; the exception is not caught
  here. The loop over the shown files appends and prints one entry per pass, so when a
  pass raises, the entries of the earlier passes have been printed: \<open>Inl\<close> carries the
  exception and those entries.\<close>

fun rebuild_entries ::
    "path \<Rightarrow> (nat \<times> path) list \<Rightarrow> (py_error \<times> entry list) + entry list" where
  "rebuild_entries root_dir [] = Inr []"
| "rebuild_entries root_dir ((i, abs_path) # rest) =
     (case relative_to abs_path root_dir of
        Inl e \<Rightarrow> Inl (e, [])
      | Inr relative_path \<Rightarrow>
          (let f_info = \<lparr>id_entry = int i + 1, path_obj = abs_path,
                          rel_path_str = path_str relative_path, selected = True\<rparr>
           in case rebuild_entries root_dir rest of
                Inl (e, es) \<Rightarrow> Inl (e, f_info # es)
              | Inr es \<Rightarrow> Inr (f_info # es)))"

text \<open>The result is the pair of lists the function returns together with the lines it
  printed, or the exception together with the lines printed before it.\<close>

definition rebuild_selectable_list ::
    "path list \<Rightarrow> string set \<Rightarrow> path
     \<Rightarrow> (py_error \<times> msg list) + (entry list \<times> path list) \<times> msg list" where
  "rebuild_selectable_list all_discovered_files current_interactive_exclusions root_dir =
     (let filtered_for_display =
            filter (\<lambda>abs_path. lower (path_suffix abs_path) \<notin> current_interactive_exclusions)
                   all_discovered_files
      in if filtered_for_display = [] then
           Inr (([], filtered_for_display), [UpdatedFileList, NoFilesRemaining])
         else
           (case rebuild_entries root_dir (enumerate 0 filtered_for_display) of
              Inl (e, listed) \<Rightarrow>
                Inl (e, [UpdatedFileList, FoundFiles (length filtered_for_display)]
                        @ map (\<lambda>f. ListedFile (id_entry f) (rel_path_str f)) listed)
            | Inr selectable_files_rebuilt \<Rightarrow>
                Inr ((selectable_files_rebuilt, filtered_for_display),
                     [UpdatedFileList, FoundFiles (length filtered_for_display)]
                     @ map (\<lambda>f. ListedFile (id_entry f) (rel_path_str f))
                           selectable_files_rebuilt)))"

text \<open>The local state of the review loop.\<close>

record session =
  current_interactive_exclusions :: "string set"
  selectable_files :: "entry list"
  current_shown_files :: "path list"

text \<open>What \<open>input()\<close> delivers: a line, or Ctrl+C.\<close>

datatype user_input = Line string | KeyboardInterrupt

text \<open>How one pass through the body of \<open>while True\<close> ends.\<close>

datatype step_result = Continue session | Break session | ReturnNone | Raise py_error

definition toggle_ids :: "int set \<Rightarrow> entry list \<Rightarrow> entry list" where
  "toggle_ids ids_to_toggle fs =
     map (\<lambda>f_info. if id_entry f_info \<in> ids_to_toggle
                     then f_info\<lparr>selected := \<not> selected f_info\<rparr> else f_info) fs"

definition loop_body :: "path list \<Rightarrow> path \<Rightarrow> session \<Rightarrow> user_input \<Rightarrow> step_result \<times> msg list" where
  "loop_body initial_discovered_files root_dir s inp =
     (case inp of
        KeyboardInterrupt \<Rightarrow> (ReturnNone, [Options, AbortedCtrlC])
      | Line raw \<Rightarrow>
         (let user_input = lower (strip raw) in
          if user_input = [] \<or> user_input = ''done'' then (Break s, [Options])
          else if user_input = ''cancel'' then (ReturnNone, [Options, AbortedByUser])
          else if prefix ''exclude '' user_input then
            (let parts = split user_input in
             if length parts > 1 then
               (let extensions_to_exclude = normalize_extensions (Some (tl parts));
                    newly_excluded_count =
                      card (extensions_to_exclude - current_interactive_exclusions s);
                    exclusions = current_interactive_exclusions s \<union> extensions_to_exclude
                in if newly_excluded_count > 0 then
                     (case rebuild_selectable_list initial_discovered_files exclusions root_dir of
                        Inl (e, printed) \<Rightarrow>
                          (Raise e,
                           [Options, AddedToExclusions extensions_to_exclude] @ printed)
                      | Inr ((rebuilt, shown), printed) \<Rightarrow>
                          (Continue \<lparr>current_interactive_exclusions = exclusions,
                                     selectable_files = rebuilt,
                                     current_shown_files = shown\<rparr>,
                           [Options, AddedToExclusions extensions_to_exclude] @ printed
                           @ (if rebuilt = [] then [AllFilesExcluded] else [])))
                   else (Continue (s\<lparr>current_interactive_exclusions := exclusions\<rparr>),
                         [Options, AlreadyExcludedOrInvalid extensions_to_exclude]))
             else (Continue s, [Options, ExcludeUsage]))
          else if user_input = ''list'' then
            (Continue s,
             [Options, CurrentSelections]
             @ (if selectable_files s = [] then [NoFilesInList]
                else map (\<lambda>f_info. SelectionLine (selected f_info) (id_entry f_info)
                                      (rel_path_str f_info)) (selectable_files s))
             @ [CurrentlyExcluded (current_interactive_exclusions s)])
          else if user_input = ''all'' then
            (Continue (s\<lparr>selectable_files :=
                          map (\<lambda>f_info. f_info\<lparr>selected := True\<rparr>) (selectable_files s)\<rparr>),
             [Options, if selectable_files s \<noteq> [] then AllSelected else NoFilesToSelect])
          else if user_input = ''none'' then
            (Continue (s\<lparr>selectable_files :=
                          map (\<lambda>f_info. f_info\<lparr>selected := False\<rparr>) (selectable_files s)\<rparr>),
             [Options, if selectable_files s \<noteq> [] then AllDeselected else NoFilesToDeselect])
          else
            (case those (map py_int (split user_input)) of
               None \<Rightarrow> (Continue s, [Options, InvalidInput])
             | Some xs \<Rightarrow>
                 (let ids_to_toggle = set xs;
                      toggled = toggle_ids ids_to_toggle (selectable_files s);
                      valid_ids_toggled = {i \<in> id_entry ` set (selectable_files s). i \<in> ids_to_toggle}
                  in (Continue (s\<lparr>selectable_files := toggled\<rparr>),
                      [Options]
                      @ map (\<lambda>f_info. NowSelected (rel_path_str f_info) (selected f_info))
                            (filter (\<lambda>f_info. id_entry f_info \<in> ids_to_toggle) toggled)
                      @ (if ids_to_toggle - valid_ids_toggled = {} then []
                         else [WarningNotFound (ids_to_toggle - valid_ids_toggled)]))))))"

text \<open>The loop of \<open>review_and_filter_files_interactive\<close> over the inputs that arrive;
  when standard input ends, \<open>input()\<close> raises \<open>EOFError\<close>, which is not caught.\<close>

datatype review_result = Returned "path list option" | Raised py_error

definition final_selected_files :: "session \<Rightarrow> path list" where
  "final_selected_files s = map path_obj (filter selected (selectable_files s))"

fun review_loop ::
    "path list \<Rightarrow> path \<Rightarrow> session \<Rightarrow> user_input list \<Rightarrow> review_result \<times> msg list" where
  "review_loop initial_discovered_files root_dir s [] = (Raised EOFError, [Options])"
| "review_loop initial_discovered_files root_dir s (inp # rest) =
     (case loop_body initial_discovered_files root_dir s inp of
        (Continue s', printed) \<Rightarrow>
          (let (r, printed') = review_loop initial_discovered_files root_dir s' rest
           in (r, printed @ printed'))
      | (Break s', printed) \<Rightarrow>
          (Returned (Some (final_selected_files s')),
           printed @ [if final_selected_files s' = [] then NoFilesSelected
                      else Proceeding (length (final_selected_files s'))])
      | (ReturnNone, printed) \<Rightarrow> (Returned None, printed)
      | (Raise e, printed) \<Rightarrow> (Raised e, printed))"

definition review_and_filter_files_interactive ::
    "path list \<Rightarrow> path \<Rightarrow> user_input list \<Rightarrow> review_result \<times> msg list" where
  "review_and_filter_files_interactive initial_discovered_files root_dir inputs =
     (if initial_discovered_files = [] then (Returned (Some []), [])
      else
        (case rebuild_selectable_list initial_discovered_files {} root_dir of
           Inl (e, printed) \<Rightarrow> (Raised e, [FileReviewStage] @ printed)
         | Inr ((selectable, shown), printed) \<Rightarrow>
             if selectable = [] then
               (Returned (Some []), [FileReviewStage] @ printed @ [NoFilesInitially])
             else
               (let (r, printed') =
                      review_loop initial_discovered_files root_dir
                        \<lparr>current_interactive_exclusions = {},
                         selectable_files = selectable,
                         current_shown_files = shown\<rparr> inputs
                in (r, [FileReviewStage] @ printed @ printed'))))"

text \<open>The sessions a review can be in: the one the function starts its loop with, and
  every one that a pass through the loop body continues with.\<close>

inductive reachable :: "path list \<Rightarrow> path \<Rightarrow> session \<Rightarrow> bool"
  for initial_discovered_files :: "path list" and root_dir :: path where
  start:
    "initial_discovered_files \<noteq> [] \<Longrightarrow>
     rebuild_selectable_list initial_discovered_files {} root_dir
       = Inr ((selectable, shown), printed) \<Longrightarrow>
     selectable \<noteq> [] \<Longrightarrow>
     reachable initial_discovered_files root_dir
       \<lparr>current_interactive_exclusions = {}, selectable_files = selectable,
        current_shown_files = shown\<rparr>"
| step:
    "reachable initial_discovered_files root_dir s \<Longrightarrow>
     loop_body initial_discovered_files root_dir s inp = (Continue s', printed) \<Longrightarrow>
     reachable initial_discovered_files root_dir s'"

section \<open>Chunker\<close>

text \<open>\<open>range(i, n, s)\<close> for a positive step. Python raises \<open>ValueError\<close> for a zero
  step; \<open>chunk_content\<close> returns before building a range unless the step is positive.\<close>

function py_range :: "nat \<Rightarrow> nat \<Rightarrow> nat \<Rightarrow> nat list" where
  "py_range i n s = (if 0 < s \<and> i < n then i # py_range (i + s) n s else [])"
  by pat_completeness auto
termination
  by (relation "measure (\<lambda>(i, n, s). n - i)") auto

declare py_range.simps [simp del]

text \<open>The slice \<open>xs[i:j]\<close> for indices \<open>0 \<le> i \<le> j\<close>; Python clips both at \<open>len(xs)\<close>.\<close>

definition py_slice :: "'a list \<Rightarrow> nat \<Rightarrow> nat \<Rightarrow> 'a list" where
  "py_slice xs i j = take (j - i) (drop i xs)"

definition chunk_content :: "'a list \<Rightarrow> int \<Rightarrow> 'a list list" where
  "chunk_content content chunk_size_chars =
     (if chunk_size_chars \<le> 0 then [content]
      else map (\<lambda>i. py_slice content i (i + nat chunk_size_chars))
               (py_range 0 (length content) (nat chunk_size_chars)))"

section \<open>Budget enforcement in the driver\<close>

text \<open>The lines the file loop of \<open>main\<close> prints.\<close>

datatype event =
    ProcessingFile nat nat string
  | ReadFailed string
  | SkippingEmptyFile string
  | WarningFileOverBudget int int
  | InfoChunkOverBudget int
  | AnalyzingChunk nat nat int
  | InfoLimitReached int

text \<open>The variables the file loop updates, the calls it makes to the analysis
  collaborator (display path and chunk, in order) and what it prints.\<close>

record scan =
  all_llm_findings :: "string list"
  total_chars_processed :: int
  llm_calls :: "(string \<times> string) list"
  printed_events :: "event list"

text \<open>How the loop over the chunks of one file ends: it runs to its end, or \<open>break\<close>s.\<close>

fun chunk_loop ::
    "(string \<Rightarrow> string \<Rightarrow> string) \<Rightarrow> int \<Rightarrow> string \<Rightarrow> nat \<Rightarrow> nat \<Rightarrow> nat
     \<Rightarrow> scan \<Rightarrow> (nat \<times> string) list \<Rightarrow> scan" where
  "chunk_loop analyze_code_with_llm max_total_chars relative_path_str i n_files n_chunks st [] = st"
| "chunk_loop analyze_code_with_llm max_total_chars relative_path_str i n_files n_chunks st
       ((chunk_idx, chunk) # rest) =
     (if strip chunk = [] then
        chunk_loop analyze_code_with_llm max_total_chars relative_path_str i n_files n_chunks
          st rest
      else
        (let chunk_len = int (length chunk) in
         if max_total_chars > 0
            \<and> total_chars_processed st + chunk_len > max_total_chars
            \<and> total_chars_processed st < max_total_chars
         then st\<lparr>printed_events := printed_events st @ [InfoChunkOverBudget max_total_chars]\<rparr>
         else
           (let display_filepath =
                  (if n_chunks > 1
                   then relative_path_str @ '' (Chunk '' @ str_nat (chunk_idx + 1) @ ''/''
                        @ str_nat n_chunks @ '')''
                   else relative_path_str);
                llm_response = analyze_code_with_llm display_filepath chunk;
                st1 = st\<lparr>printed_events :=
                            printed_events st @ [AnalyzingChunk (chunk_idx + 1) n_chunks chunk_len],
                          llm_calls := llm_calls st @ [(display_filepath, chunk)],
                          all_llm_findings :=
                            (if llm_response \<noteq> [] then all_llm_findings st @ [llm_response]
                             else all_llm_findings st),
                          total_chars_processed := total_chars_processed st + chunk_len\<rparr>
            in if max_total_chars > 0 \<and> total_chars_processed st1 \<ge> max_total_chars then
                 (if int i < int n_files - 1 \<or> int chunk_idx < int n_chunks - 1
                  then st1\<lparr>printed_events :=
                             printed_events st1 @ [InfoLimitReached max_total_chars]\<rparr>
                  else st1)
               else
                 chunk_loop analyze_code_with_llm max_total_chars relative_path_str i n_files
                   n_chunks st1 rest)))"

text \<open>The loop over \<open>files_to_scan\<close>. A file is given by its path relative to the scan
  root and by what reading it yields: \<open>Inl\<close> the text of the exception, \<open>Inr\<close> the
  content.\<close>

fun file_loop ::
    "(string \<Rightarrow> string \<Rightarrow> string) \<Rightarrow> int \<Rightarrow> int \<Rightarrow> nat
     \<Rightarrow> scan \<Rightarrow> (nat \<times> string \<times> (string + string)) list \<Rightarrow> scan" where
  "file_loop analyze_code_with_llm chunk_size max_total_chars n_files st [] = st"
| "file_loop analyze_code_with_llm chunk_size max_total_chars n_files st
       ((i, relative_path_str, read_text) # rest) =
     (let st0 = st\<lparr>printed_events :=
                   printed_events st @ [ProcessingFile (i + 1) n_files relative_path_str]\<rparr>
      in case read_text of
           Inl e \<Rightarrow>
             (let error_msg = ''Error: Could not read file '' @ relative_path_str
                              @ ''. Reason: '' @ e
              in file_loop analyze_code_with_llm chunk_size max_total_chars n_files
                   (st0\<lparr>printed_events := printed_events st0 @ [ReadFailed error_msg],
                        all_llm_findings := all_llm_findings st0 @ [error_msg]\<rparr>) rest)
         | Inr content \<Rightarrow>
             if strip content = [] then
               file_loop analyze_code_with_llm chunk_size max_total_chars n_files
                 (st0\<lparr>printed_events :=
                        printed_events st0 @ [SkippingEmptyFile relative_path_str]\<rparr>) rest
             else
               (let content_len = int (length content) in
                if max_total_chars > 0
                   \<and> total_chars_processed st0 + content_len > max_total_chars
                   \<and> total_chars_processed st0 < max_total_chars
                then
                  file_loop analyze_code_with_llm chunk_size max_total_chars n_files
                    (st0\<lparr>printed_events :=
                           printed_events st0
                           @ [WarningFileOverBudget max_total_chars content_len]\<rparr>) rest
                else
                  (let code_chunks = chunk_content content chunk_size;
                       st1 = chunk_loop analyze_code_with_llm max_total_chars relative_path_str
                               i n_files (length code_chunks) st0 (enumerate 0 code_chunks)
                   in if max_total_chars > 0 \<and> total_chars_processed st1 \<ge> max_total_chars
                      then st1
                      else file_loop analyze_code_with_llm chunk_size max_total_chars n_files
                             st1 rest)))"

text \<open>The scan of \<open>main\<close> from the initialisation of its counters to the call of
  \<open>generate_report\<close>.\<close>

definition scan_files ::
    "(string \<Rightarrow> string \<Rightarrow> string) \<Rightarrow> int \<Rightarrow> int \<Rightarrow> (string \<times> (string + string)) list \<Rightarrow> scan" where
  "scan_files analyze_code_with_llm chunk_size max_total_chars files_to_scan =
     file_loop analyze_code_with_llm chunk_size max_total_chars (length files_to_scan)
       \<lparr>all_llm_findings = [], total_chars_processed = 0, llm_calls = [], printed_events = []\<rparr>
       (enumerate 0 files_to_scan)"

text \<open>The number of characters handed to the analysis collaborator so far: the sum of
  the lengths of the chunks of \<open>llm_calls\<close>.\<close>

definition sent_chars :: "scan \<Rightarrow> int" where
  "sent_chars st = sum_list (map (\<lambda>(d, c). int (length c)) (llm_calls st))"

text \<open>A collaborator for concrete runs: it answers every chunk with the sentence the
  prompt asks for when nothing is found.\<close>

definition quiet_llm :: "string \<Rightarrow> string \<Rightarrow> string" where
  "quiet_llm filepath_display code_content_chunk =
     ''No critical security vulnerabilities identified in this snippet.''"

section \<open>ReportAggregator\<close>

definition disclaimer :: string where
  "disclaimer =
     ''This report was generated by an AI-assisted security review tool (Secrev). ''
     @ ''The findings are potential vulnerabilities and **require human verification and contextual understanding.** ''
     @ ''This tool is an aid and not a replacement for thorough manual code review, dedicated SAST/DAST tools, or professional security audits.''"

definition no_findings_msg :: string where
  "no_findings_msg =
     ''No potential vulnerabilities were reported by the LLM across the scanned files.\<newline>''"

definition reviewed_no_critical_msg :: string where
  "reviewed_no_critical_msg =
     ''The LLM reviewed the content but did not identify any critical security vulnerabilities.\<newline>''"

definition is_error :: "string \<Rightarrow> bool" where
  "is_error finding_text = sublist ''Error:'' finding_text"

definition is_no_vulns :: "string \<Rightarrow> bool" where
  "is_no_vulns finding_text =
     sublist ''No critical security vulnerabilities identified'' finding_text"

text \<open>The \<open>for finding_text in findings\<close> loop of \<open>generate_report\<close>, on the triple
  (actionable count, Markdown parts, text parts).\<close>

fun findings_loop ::
    "nat \<times> string list \<times> string list \<Rightarrow> string list \<Rightarrow> nat \<times> string list \<times> string list" where
  "findings_loop acc [] = acc"
| "findings_loop (actionable_findings_count, md_content_parts, txt_content_parts)
       (finding_text # rest) =
     (if \<not> is_error finding_text \<and> \<not> is_no_vulns finding_text then
        findings_loop
          (actionable_findings_count + 1,
           md_content_parts @ [''---\<newline>'', finding_text @ ''\<newline>\<newline>''],
           txt_content_parts
           @ [''------------------------\<newline>'' @ finding_text @ ''\<newline>\<newline>'']) rest
      else if is_error finding_text then
        findings_loop
          (actionable_findings_count,
           md_content_parts
           @ [''---\<newline>'', ''**Analysis Issue:**\<newline>'' @ finding_text @ ''\<newline>\<newline>''],
           txt_content_parts
           @ [''--- ANALYSIS ISSUE ---\<newline>'' @ finding_text @ ''\<newline>\<newline>'']) rest
      else findings_loop (actionable_findings_count, md_content_parts, txt_content_parts) rest)"

text \<open>The two rendered reports of \<open>generate_report\<close>: (\<open>md_full_content\<close>,
  \<open>txt_full_content\<close>). \<open>now\<close> is the formatted time of the report title.\<close>

definition generate_report :: "string \<Rightarrow> string list \<Rightarrow> string \<times> string" where
  "generate_report now findings =
     (let report_title = ''Secrev Report - '' @ now;
          md0 = [''# '' @ report_title @ ''\<newline>\<newline>'', ''## Disclaimer\<newline>'',
                 disclaimer @ ''\<newline>\<newline>'', ''## Findings\<newline>''];
          txt0 = [report_title @ ''\<newline>\<newline>'', ''Disclaimer:\<newline>'',
                  disclaimer @ ''\<newline>\<newline>'', ''Findings:\<newline>'',
                  replicate 20 CHR ''='' @ ''\<newline>\<newline>''];
          (md_content_parts, txt_content_parts) =
            (if findings = [] then (md0 @ [no_findings_msg], txt0 @ [no_findings_msg])
             else
               (let (actionable_findings_count, md1, txt1) = findings_loop (0, md0, txt0) findings
                in if actionable_findings_count = 0
                      \<and> list_ex (\<lambda>f. \<not> is_error f) (filter (\<lambda>f. f \<noteq> []) findings)
                   then (md1 @ [reviewed_no_critical_msg], txt1 @ [reviewed_no_critical_msg])
                   else (md1, txt1)))
      in (concat md_content_parts, concat txt_content_parts))"

section \<open>Properties of the chunker\<close>

lemma py_range_concat:
  "0 < s \<Longrightarrow> concat (map (\<lambda>i. py_slice xs i (i + s)) (py_range i (length xs) s)) = drop i xs"
proof (induction i "length xs" s rule: py_range.induct)
  case (1 i s)
  show ?case
  proof (cases "i < length xs")
    case True
    with 1 have "concat (map (\<lambda>i. py_slice xs i (i + s)) (py_range (i + s) (length xs) s))
        = drop (i + s) xs" by simp
    with True 1(2) show ?thesis
      by (subst py_range.simps) (simp add: py_slice_def add.commute [of i s] flip: drop_drop)
  next
    case False
    then show ?thesis by (subst py_range.simps) simp
  qed
qed

lemma py_range_length:
  "0 < s \<Longrightarrow> length (py_range i n s) = (n - i + s - 1) div s"
proof (induction i n s rule: py_range.induct)
  case (1 i n s)
  show ?case
  proof (cases "i < n")
    case False
    with 1(2) show ?thesis by (subst py_range.simps) simp
  next
    case True
    with 1 have IH: "length (py_range (i + s) n s) = (n - (i + s) + s - 1) div s" by simp
    show ?thesis
    proof (cases "i + s \<le> n")
      case True
      then have "n - i + s - 1 = (n - (i + s) + s - 1) + s" using 1(2) by linarith
      then have "(n - i + s - 1) div s = ((n - (i + s) + s - 1) + s) div s"
        by (simp only:)
      also have "\<dots> = Suc ((n - (i + s) + s - 1) div s)"
        using 1(2) by (simp only: div_add_self2)
      finally have "(n - i + s - 1) div s = Suc ((n - (i + s) + s - 1) div s)" .
      with \<open>i < n\<close> 1(2) IH show ?thesis by (subst py_range.simps) simp
    next
      case False
      then have a: "n - (i + s) + s - 1 < s" using 1(2) by linarith
      have "s \<le> n - i + s - 1" "n - i + s - 1 < s + s" using False \<open>i < n\<close> by linarith+
      then have "(n - i + s - 1) div s = 1"
        by (intro div_nat_eqI) simp_all
      with a \<open>i < n\<close> 1(2) IH show ?thesis by (subst py_range.simps) simp
    qed
  qed
qed

lemma py_range_butlast:
  "0 < s \<Longrightarrow> c \<in> set (butlast (map (\<lambda>i. py_slice xs i (i + s)) (py_range i (length xs) s)))
     \<Longrightarrow> length c = s"
proof (induction i "length xs" s rule: py_range.induct)
  case (1 i s)
  show ?case
  proof (cases "i < length xs")
    case False
    with 1(3) show ?thesis by (subst (asm) py_range.simps) simp
  next
    case True
    let ?rest = "map (\<lambda>i. py_slice xs i (i + s)) (py_range (i + s) (length xs) s)"
    from True 1(2,3) have mem: "c \<in> set (butlast (py_slice xs i (i + s) # ?rest))"
      by (subst (asm) py_range.simps) simp
    show ?thesis
    proof (cases "?rest = []")
      case True
      with mem show ?thesis by simp
    next
      case False
      then have "py_range (i + s) (length xs) s \<noteq> []" by auto
      then have "i + s < length xs"
        by (subst (asm) py_range.simps) (simp split: if_splits)
      then have "length (py_slice xs i (i + s)) = s" by (simp add: py_slice_def)
      moreover from mem False have "c = py_slice xs i (i + s) \<or> c \<in> set (butlast ?rest)"
        by simp
      ultimately show ?thesis using 1(1) [OF _ 1(2)] True 1(2) by auto
    qed
  qed
qed

lemma ceil_div:
  assumes s: "0 < s"
  shows "int ((n + s - 1) div s) = \<lceil>real n / real s\<rceil>"
proof -
  define q where "q = (n + s - 1) div s"
  have a: "q * s \<le> n + s - 1" unfolding q_def by simp
  have b: "n + s - 1 < s + q * s" unfolding q_def using s by (rule dividend_less_div_times)
  from a s have a': "q * s < n + s" by linarith
  from b s have b': "n \<le> q * s" by linarith
  have "real (q * s) < real (n + s)" using a' by (simp only: of_nat_less_iff)
  then have c: "real q * real s < real n + real s" by simp
  have "real n \<le> real (q * s)" using b' by (simp only: of_nat_le_iff)
  then have d: "real n \<le> real q * real s" by simp
  have "\<lceil>real n / real s\<rceil> = int q"
  proof (rule ceiling_unique)
    show "real_of_int (int q) - 1 < real n / real s"
      using c s by (simp add: field_simps)
    show "real n / real s \<le> real_of_int (int q)"
      using d s by (simp add: field_simps)
  qed
  then show ?thesis by (simp add: q_def)
qed

text \<open>
  Claim C3. For every content \<open>C\<close> and positive size \<open>S\<close>, the chunks of
  \<open>chunk_content C S\<close> concatenate in order to \<open>C\<close>, every chunk but the last has
  length exactly \<open>S\<close>, and there are \<open>ceil(len(C) / S)\<close> chunks; for \<open>S \<le> 0\<close> the
  result is the single chunk \<open>[C]\<close>.
\<close>

theorem chunk_content_spec:
  "(0 < S \<longrightarrow>
      concat (chunk_content C S) = C
    \<and> (\<forall>c \<in> set (butlast (chunk_content C S)). int (length c) = S)
    \<and> int (length (chunk_content C S)) = \<lceil>real (length C) / real_of_int S\<rceil>)
   \<and> (S \<le> 0 \<longrightarrow> chunk_content C S = [C])"
proof (intro conjI impI)
  assume S: "0 < S"
  then have s: "0 < nat S" by simp
  show "concat (chunk_content C S) = C"
    using py_range_concat [OF s, of C 0] S by (simp add: chunk_content_def)
  show "\<forall>c \<in> set (butlast (chunk_content C S)). int (length c) = S"
    using py_range_butlast [OF s, of _ C 0] S by (auto simp: chunk_content_def)
  have "int (length (chunk_content C S)) = int ((length C + nat S - 1) div nat S)"
    using S by (simp add: chunk_content_def py_range_length [OF s])
  also have "\<dots> = \<lceil>real (length C) / real (nat S)\<rceil>" by (rule ceil_div [OF s])
  finally show "int (length (chunk_content C S)) = \<lceil>real (length C) / real_of_int S\<rceil>"
    using S by simp
next
  assume "S \<le> 0"
  then show "chunk_content C S = [C]" by (simp add: chunk_content_def)
qed

theorem chunk_content_spec_witness:
  "(0::int) < 3 \<and> concat (chunk_content ''abcdefg'' 3) = ''abcdefg''
   \<and> chunk_content ''abcdefg'' 3 = [''abc'', ''def'', ''g'']
   \<and> ''def'' \<in> set (butlast (chunk_content ''abcdefg'' 3)) \<and> int (length ''def'') = 3
   \<and> int (length (chunk_content ''abcdefg'' 3)) = \<lceil>real (length ''abcdefg'') / real_of_int 3\<rceil>
   \<and> (0::int) \<le> 0 \<and> chunk_content ''abcdefg'' 0 = [''abcdefg'']"
proof -
  have e: "chunk_content ''abcdefg'' 3 = [''abc'', ''def'', ''g'']" by code_simp
  then have m: "''def'' \<in> set (butlast (chunk_content ''abcdefg'' 3))" by simp
  from chunk_content_spec [of 3 "''abcdefg''"] m
  have l: "int (length ''def'') = 3" by simp
  show ?thesis
    using chunk_content_spec [of 3 "''abcdefg''"] chunk_content_spec [of 0 "''abcdefg''"] e m l
    by simp
qed

section \<open>Properties of normalisation\<close>

lemma lower_char_idem: "lower_char (lower_char c) = lower_char c"
proof -
  define n where "n = (of_char c :: nat)"
  show ?thesis
  proof (cases "(65 \<le> n \<and> n \<le> 90) \<or> (192 \<le> n \<and> n \<le> 222 \<and> n \<noteq> 215)")
    case False
    then have "lower_char c = c" unfolding n_def lower_char_def Let_def by (rule if_not_P)
    then show ?thesis by (simp only:)
  next
    case True
    then have lc: "lower_char c = char_of (n + 32)" by (simp add: lower_char_def n_def)
    from True have "n + 32 < 256" by linarith
    then have "(of_char (char_of (n + 32) :: char) :: nat) = n + 32" by simp
    moreover from True have "\<not> ((65 \<le> n + 32 \<and> n + 32 \<le> 90)
        \<or> (192 \<le> n + 32 \<and> n + 32 \<le> 222 \<and> n + 32 \<noteq> 215))" by linarith
    ultimately have "lower_char (char_of (n + 32)) = char_of (n + 32)"
      by (simp only: lower_char_def Let_def if_False)
    with lc show ?thesis by simp
  qed
qed

lemma lower_idem: "lower (lower s) = lower s"
  by (simp add: lower_def lower_char_idem)

lemma normalize_extensions_Some:
  "normalize_extensions (Some es)
     = {CHR ''.'' # lower (strip_char CHR ''.'' e) | e. e \<in> set es \<and> strip e \<noteq> []}"
  by (auto simp: normalize_extensions_def)

lemma normalize_extensions_elem:
  assumes "x \<in> normalize_extensions exts"
  shows "\<exists>r. x = CHR ''.'' # r \<and> lower r = r"
  using assms
  by (cases exts) (auto simp: normalize_extensions_def lower_idem split: if_splits)

lemma empty_not_normalized: "[] \<notin> normalize_extensions exts"
  using normalize_extensions_elem [of "[]" exts] by auto

text \<open>
  Claim C5, as stated, fails: \<open>_normalize_extensions\<close> uses \<open>e.strip()\<close> only to decide
  whether a token is dropped; the text it keeps is \<open>e.strip('.')\<close>, which removes dots at
  both ends and no whitespace. A token with surrounding whitespace keeps it, and a
  trailing dot is removed.
\<close>

theorem normalize_extensions_keeps_whitespace:
  "normalize_extensions (Some ['' py '']) = {''. py ''}
   \<and> ''.py'' \<notin> normalize_extensions (Some ['' py ''])
   \<and> normalize_extensions (Some [''py.'']) = {''.py''}"
  by code_simp

text \<open>
  Claim C5, amended. For every list of raw extension tokens, normalisation drops the
  tokens that are empty or whitespace only, and turns every other token into a single dot
  followed by the lowercased token with the dots at both of its ends removed (whitespace
  is kept); so every element of the normalised set is a nonempty lowercase string that
  starts with a dot. No list, or the empty list, gives the empty set.
\<close>

theorem normalize_extensions_amended:
  "normalize_extensions None = {}
   \<and> normalize_extensions (Some es)
       = {CHR ''.'' # lower (strip_char CHR ''.'' e) | e. e \<in> set es \<and> strip e \<noteq> []}
   \<and> (\<forall>x \<in> normalize_extensions exts. x \<noteq> [] \<and> hd x = CHR ''.'' \<and> lower x = x)"
proof (intro conjI ballI)
  show "normalize_extensions None = {}" by (simp add: normalize_extensions_def)
  show "normalize_extensions (Some es)
       = {CHR ''.'' # lower (strip_char CHR ''.'' e) | e. e \<in> set es \<and> strip e \<noteq> []}"
    by (rule normalize_extensions_Some)
next
  fix x assume "x \<in> normalize_extensions exts"
  then obtain r where r: "x = CHR ''.'' # r" "lower r = r"
    using normalize_extensions_elem by blast
  show "x \<noteq> []" by (simp add: r)
  show "hd x = CHR ''.''" by (simp add: r)
  show "lower x = x" using r(2) by (simp add: r(1) lower_def lower_char_def)
qed

theorem normalize_extensions_amended_witness:
  "normalize_extensions (Some [''.PY'', ''..Txt.'', ''  '', '''']) = {''.py'', ''.txt''}
   \<and> ''.py'' \<in> normalize_extensions (Some [''.PY'', ''..Txt.'', ''  '', ''''])
   \<and> ''.py'' \<noteq> [] \<and> hd ''.py'' = CHR ''.'' \<and> lower ''.py'' = ''.py''"
proof -
  have e: "normalize_extensions (Some [''.PY'', ''..Txt.'', ''  '', '''']) = {''.py'', ''.txt''}"
    by code_simp
  then have m: "''.py'' \<in> normalize_extensions (Some [''.PY'', ''..Txt.'', ''  '', ''''])"
    by simp
  from normalize_extensions_amended
         [of "[''.PY'', ''..Txt.'', ''  '', '''']" "Some [''.PY'', ''..Txt.'', ''  '', '''']"] m
  have "''.py'' \<noteq> [] \<and> hd ''.py'' = CHR ''.'' \<and> lower ''.py'' = ''.py''" by blast
  with e m show ?thesis by blast
qed

section \<open>Properties of the report\<close>

lemma findings_loop_no_actionable:
  "\<forall>f \<in> set fs. is_error f \<or> is_no_vulns f \<Longrightarrow>
   fst (findings_loop (n, md, tx) fs) = n"
  by (induction fs arbitrary: md tx) auto

lemma findings_loop_all_errors:
  "fs \<noteq> [] \<Longrightarrow> \<forall>f \<in> set fs. is_error f \<Longrightarrow>
   \<exists>n' md' tx' X Y. findings_loop (n, md, tx) fs = (n', md', tx')
      \<and> concat md' = X @ ''\<newline>\<newline>'' \<and> concat tx' = Y @ ''\<newline>\<newline>''"
proof (induction fs arbitrary: md tx)
  case Nil
  then show ?case by simp
next
  case (Cons f fs)
  show ?case
  proof (cases "fs = []")
    case True
    with Cons.prems show ?thesis by simp
  next
    case False
    with Cons show ?thesis by simp
  qed
qed

lemma reviewed_msg_not_suffix:
  "\<not> suffix reviewed_no_critical_msg (X @ ''\<newline>\<newline>'')"
proof
  assume "suffix reviewed_no_critical_msg (X @ ''\<newline>\<newline>'')"
  then obtain Z where "X @ ''\<newline>\<newline>'' = Z @ reviewed_no_critical_msg"
    by (auto simp: suffix_def)
  then have "(X @ ''\<newline>'') @ ''\<newline>''
      = (Z @ ''The LLM reviewed the content but did not identify any critical security vulnerabilities.'') @ ''\<newline>''"
    by (simp add: reviewed_no_critical_msg_def)
  then have "X @ ''\<newline>''
      = Z @ ''The LLM reviewed the content but did not identify any critical security vulnerabilities.''"
    by (simp only: append_same_eq)
  then have "X @ ''\<newline>''
      = (Z @ ''The LLM reviewed the content but did not identify any critical security vulnerabilities'') @ ''.''"
    by simp
  then show False by (simp only: append1_eq_conv) simp
qed

text \<open>
  Claim C6, as stated, fails: the statement is appended only when, besides a zero
  actionable count, some non-empty entry lacks the error marker. A findings list of one
  error entry has no actionable entry, and neither report contains the statement.
\<close>

theorem generate_report_only_errors:
  "[''Error: x''] \<noteq> [] \<and> is_error ''Error: x''
   \<and> \<not> sublist reviewed_no_critical_msg
          (fst (generate_report ''2024-01-01 00:00:00'' [''Error: x'']))
   \<and> \<not> sublist reviewed_no_critical_msg
          (snd (generate_report ''2024-01-01 00:00:00'' [''Error: x'']))"
  by code_simp

text \<open>
  Claim C6, amended. For every non-empty findings list with no actionable entry: if at
  least one entry is not an error entry (it is then a no-finding entry), both rendered
  reports end with, and so contain, the statement that the content was reviewed and
  nothing critical was identified; if every entry is an error entry, neither report ends
  with that statement.
\<close>

theorem generate_report_reviewed_statement:
  assumes "findings \<noteq> []" and "\<forall>f \<in> set findings. is_error f \<or> is_no_vulns f"
  shows "((\<exists>f \<in> set findings. \<not> is_error f) \<longrightarrow>
            suffix reviewed_no_critical_msg (fst (generate_report now findings))
          \<and> suffix reviewed_no_critical_msg (snd (generate_report now findings))
          \<and> sublist reviewed_no_critical_msg (fst (generate_report now findings))
          \<and> sublist reviewed_no_critical_msg (snd (generate_report now findings)))
       \<and> ((\<forall>f \<in> set findings. is_error f) \<longrightarrow>
            \<not> suffix reviewed_no_critical_msg (fst (generate_report now findings))
          \<and> \<not> suffix reviewed_no_critical_msg (snd (generate_report now findings)))"
proof (intro conjI impI)
  let ?r = "generate_report now findings"
  assume ex: "\<exists>f \<in> set findings. \<not> is_error f"
  then obtain f where f: "f \<in> set findings" "\<not> is_error f" by blast
  with assms(2) have "is_no_vulns f" by blast
  then have "f \<noteq> []" by (auto simp: is_no_vulns_def)
  with f have any: "list_ex (\<lambda>f. \<not> is_error f) (filter (\<lambda>f. f \<noteq> []) findings)"
    by (auto simp: list_ex_iff)
  obtain n md tx where loop: "findings_loop (0,
      [''# '' @ (''Secrev Report - '' @ now) @ ''\<newline>\<newline>'', ''## Disclaimer\<newline>'',
                 disclaimer @ ''\<newline>\<newline>'', ''## Findings\<newline>''],
      [(''Secrev Report - '' @ now) @ ''\<newline>\<newline>'', ''Disclaimer:\<newline>'',
                  disclaimer @ ''\<newline>\<newline>'', ''Findings:\<newline>'',
                  replicate 20 CHR ''='' @ ''\<newline>\<newline>'']) findings = (n, md, tx)"
    by (metis prod_cases3)
  with findings_loop_no_actionable [OF assms(2)] have n: "n = 0" by (metis fst_conv)
  have r: "?r = (concat md @ reviewed_no_critical_msg, concat tx @ reviewed_no_critical_msg)"
    using assms(1) any loop n by (simp add: generate_report_def Let_def)
  show "suffix reviewed_no_critical_msg (fst ?r)" by (simp add: r suffix_def)
  show "suffix reviewed_no_critical_msg (snd ?r)" by (simp add: r suffix_def)
  show "sublist reviewed_no_critical_msg (fst ?r)" by (simp add: r)
  show "sublist reviewed_no_critical_msg (snd ?r)" by (simp add: r)
next
  let ?r = "generate_report now findings"
  assume all: "\<forall>f \<in> set findings. is_error f"
  then have none: "\<not> list_ex (\<lambda>f. \<not> is_error f) (filter (\<lambda>f. f \<noteq> []) findings)"
    by (auto simp: list_ex_iff)
  from findings_loop_all_errors [OF assms(1) all]
  obtain n md tx X Y where loop: "findings_loop (0,
      [''# '' @ (''Secrev Report - '' @ now) @ ''\<newline>\<newline>'', ''## Disclaimer\<newline>'',
                 disclaimer @ ''\<newline>\<newline>'', ''## Findings\<newline>''],
      [(''Secrev Report - '' @ now) @ ''\<newline>\<newline>'', ''Disclaimer:\<newline>'',
                  disclaimer @ ''\<newline>\<newline>'', ''Findings:\<newline>'',
                  replicate 20 CHR ''='' @ ''\<newline>\<newline>'']) findings = (n, md, tx)"
    and X: "concat md = X @ ''\<newline>\<newline>''" and Y: "concat tx = Y @ ''\<newline>\<newline>''"
    by blast
  have r: "?r = (concat md, concat tx)"
    using assms(1) none loop by (simp add: generate_report_def Let_def)
  show "\<not> suffix reviewed_no_critical_msg (fst ?r)"
    using reviewed_msg_not_suffix [of X] by (simp add: r X)
  show "\<not> suffix reviewed_no_critical_msg (snd ?r)"
    using reviewed_msg_not_suffix [of Y] by (simp add: r Y)
qed

theorem generate_report_reviewed_statement_witness:
  "[''No critical security vulnerabilities identified in this snippet.'', ''Error: x''] \<noteq> []
   \<and> is_no_vulns ''No critical security vulnerabilities identified in this snippet.''
   \<and> \<not> is_error ''No critical security vulnerabilities identified in this snippet.''
   \<and> is_error ''Error: x''
   \<and> sublist reviewed_no_critical_msg (fst (generate_report ''2024-01-01 00:00:00''
        [''No critical security vulnerabilities identified in this snippet.'', ''Error: x'']))
   \<and> sublist reviewed_no_critical_msg (snd (generate_report ''2024-01-01 00:00:00''
        [''No critical security vulnerabilities identified in this snippet.'', ''Error: x'']))"
proof -
  let ?ok = "''No critical security vulnerabilities identified in this snippet.''"
  have a: "is_no_vulns ?ok" by code_simp
  have b: "\<not> is_error ?ok" by code_simp
  have c: "is_error ''Error: x''" by code_simp
  have h1: "[?ok, ''Error: x''] \<noteq> []" by (rule list.distinct)
  have h2: "\<forall>f \<in> set [?ok, ''Error: x'']. is_error f \<or> is_no_vulns f"
    using a c by (simp only: list.set ball_simps insert_iff empty_iff) blast
  have h3: "\<exists>f \<in> set [?ok, ''Error: x'']. \<not> is_error f"
    using b by (intro bexI [of _ ?ok]) (simp_all only: list.set insert_iff simp_thms)
  from generate_report_reviewed_statement [OF h1 h2, of "''2024-01-01 00:00:00''"] h3
  have "sublist reviewed_no_critical_msg (fst (generate_report ''2024-01-01 00:00:00'' [?ok, ''Error: x'']))
   \<and> sublist reviewed_no_critical_msg (snd (generate_report ''2024-01-01 00:00:00'' [?ok, ''Error: x'']))"
    by blast
  with a b c h1 show ?thesis by blast
qed

section \<open>Properties of the interactive selector\<close>

lemma rebuild_entries_enumerate:
  "rebuild_entries root_dir (enumerate n xs) = Inr es \<Longrightarrow>
   map path_obj es = xs
   \<and> map id_entry es = map (\<lambda>i. int i + 1) [n..<n + length xs]
   \<and> (\<forall>f \<in> set es. selected f)"
proof (induction xs arbitrary: n es)
  case Nil
  then show ?case by simp
next
  case (Cons x xs)
  from Cons.prems obtain rel es' where
    es': "rebuild_entries root_dir (enumerate (Suc n) xs) = Inr es'"
    and es: "es = \<lparr>id_entry = int n + 1, path_obj = x, rel_path_str = path_str rel,
                    selected = True\<rparr> # es'"
    by (auto simp: Let_def split: sum.splits prod.splits)
  have up: "[n..<n + length (x # xs)] = n # [Suc n..<Suc n + length xs]"
    by (simp add: upt_conv_Cons del: upt_Suc)
  from Cons.IH [OF es'] show ?case
    unfolding up es by simp
qed

lemma rebuild_selectable_list_result:
  assumes "rebuild_selectable_list all_files excl root_dir = Inr ((rebuilt, shown), printed)"
  shows "shown = filter (\<lambda>p. lower (path_suffix p) \<notin> excl) all_files
       \<and> map path_obj rebuilt = shown
       \<and> map id_entry rebuilt = map int [1..<Suc (length rebuilt)]
       \<and> (\<forall>f \<in> set rebuilt. selected f)"
proof (cases "filter (\<lambda>p. lower (path_suffix p) \<notin> excl) all_files = []")
  case True
  with assms show ?thesis by (simp add: rebuild_selectable_list_def)
next
  case False
  with assms have sh: "shown = filter (\<lambda>p. lower (path_suffix p) \<notin> excl) all_files"
    and re: "rebuild_entries root_dir (enumerate 0 shown) = Inr rebuilt"
    by (auto simp: rebuild_selectable_list_def Let_def split: sum.splits)
  from rebuild_entries_enumerate [OF re]
  have a: "map path_obj rebuilt = shown"
    and b: "map id_entry rebuilt = map (\<lambda>i. int i + 1) [0..<length shown]"
    and c: "\<forall>f \<in> set rebuilt. selected f" by simp_all
  from a have len: "length rebuilt = length shown" by (metis length_map)
  have "map (\<lambda>i. int i + 1) [0..<length shown] = map int (map Suc [0..<length shown])"
    by simp
  also have "\<dots> = map int [1..<Suc (length shown)]"
    by (simp only: map_Suc_upt One_nat_def)
  finally show ?thesis using sh a b c len by simp
qed

lemma finite_normalize_extensions: "finite (normalize_extensions exts)"
  by (cases exts) (auto simp: normalize_extensions_def)

lemma prefix_exclude_not_keyword:
  assumes "prefix ''exclude '' u"
  shows "u \<noteq> []" "u \<noteq> ''done''" "u \<noteq> ''cancel''"
  using assms by auto

lemma loop_body_exclude_usage:
  assumes "prefix ''exclude '' (lower (strip raw))"
      and "\<not> 1 < length (split (lower (strip raw)))"
  shows "loop_body init root_dir s (Line raw) = (Continue s, [Options, ExcludeUsage])"
  using assms prefix_exclude_not_keyword [OF assms(1)]
  by (simp add: loop_body_def Let_def)

lemma loop_body_exclude_known:
  assumes "prefix ''exclude '' (lower (strip raw))"
      and "1 < length (split (lower (strip raw)))"
      and "normalize_extensions (Some (tl (split (lower (strip raw)))))
             \<subseteq> current_interactive_exclusions s"
  shows "loop_body init root_dir s (Line raw)
           = (Continue s,
              [Options, AlreadyExcludedOrInvalid
                          (normalize_extensions (Some (tl (split (lower (strip raw))))))])"
proof -
  let ?exts = "normalize_extensions (Some (tl (split (lower (strip raw)))))"
  from assms(3) have d: "?exts - current_interactive_exclusions s = {}" by blast
  from assms(3) have u: "current_interactive_exclusions s \<union> ?exts
      = current_interactive_exclusions s" by blast
  show ?thesis
    using assms(1,2) prefix_exclude_not_keyword [OF assms(1)]
    by (simp add: loop_body_def Let_def d u)
qed

lemma loop_body_exclude_new:
  assumes "prefix ''exclude '' (lower (strip raw))"
      and "1 < length (split (lower (strip raw)))"
      and "\<not> normalize_extensions (Some (tl (split (lower (strip raw)))))
             \<subseteq> current_interactive_exclusions s"
  shows "loop_body init root_dir s (Line raw)
           = (case rebuild_selectable_list init
                     (current_interactive_exclusions s
                      \<union> normalize_extensions (Some (tl (split (lower (strip raw))))))
                     root_dir of
                Inl (e, printed) \<Rightarrow>
                  (Raise e,
                   [Options, AddedToExclusions
                      (normalize_extensions (Some (tl (split (lower (strip raw))))))]
                   @ printed)
              | Inr ((rebuilt, shown), printed) \<Rightarrow>
                  (Continue \<lparr>current_interactive_exclusions =
                               current_interactive_exclusions s
                               \<union> normalize_extensions (Some (tl (split (lower (strip raw))))),
                             selectable_files = rebuilt, current_shown_files = shown\<rparr>,
                   [Options, AddedToExclusions
                      (normalize_extensions (Some (tl (split (lower (strip raw))))))]
                   @ printed @ (if rebuilt = [] then [AllFilesExcluded] else [])))"
proof -
  let ?exts = "normalize_extensions (Some (tl (split (lower (strip raw)))))"
  have "finite (?exts - current_interactive_exclusions s)"
    by (intro finite_Diff finite_normalize_extensions)
  moreover from assms(3) have "?exts - current_interactive_exclusions s \<noteq> {}" by blast
  ultimately have c: "0 < card (?exts - current_interactive_exclusions s)"
    by (simp add: card_gt_0_iff)
  show ?thesis
    using assms(1,2) prefix_exclude_not_keyword [OF assms(1)] c
    by (simp add: loop_body_def Let_def)
qed

lemma loop_body_other_Continue:
  assumes "\<not> prefix ''exclude '' (lower (strip raw))"
      and "loop_body init root_dir s (Line raw) = (Continue s', printed)"
  shows "current_interactive_exclusions s' = current_interactive_exclusions s
          \<and> current_shown_files s' = current_shown_files s
          \<and> map path_obj (selectable_files s') = map path_obj (selectable_files s)
          \<and> map id_entry (selectable_files s') = map id_entry (selectable_files s)"
proof -
  define u where "u = lower (strip raw)"
  have lb: "loop_body init root_dir s (Line raw) =
          (if u = [] \<or> u = ''done'' then (Break s, [Options])
          else if u = ''cancel'' then (ReturnNone, [Options, AbortedByUser])
          else if u = ''list'' then
            (Continue s,
             [Options, CurrentSelections]
             @ (if selectable_files s = [] then [NoFilesInList]
                else map (\<lambda>f_info. SelectionLine (selected f_info) (id_entry f_info)
                                      (rel_path_str f_info)) (selectable_files s))
             @ [CurrentlyExcluded (current_interactive_exclusions s)])
          else if u = ''all'' then
            (Continue (s\<lparr>selectable_files :=
                          map (\<lambda>f_info. f_info\<lparr>selected := True\<rparr>) (selectable_files s)\<rparr>),
             [Options, if selectable_files s \<noteq> [] then AllSelected else NoFilesToSelect])
          else if u = ''none'' then
            (Continue (s\<lparr>selectable_files :=
                          map (\<lambda>f_info. f_info\<lparr>selected := False\<rparr>) (selectable_files s)\<rparr>),
             [Options, if selectable_files s \<noteq> [] then AllDeselected else NoFilesToDeselect])
          else
            (case those (map py_int (split u)) of
               None \<Rightarrow> (Continue s, [Options, InvalidInput])
             | Some xs \<Rightarrow>
                 (let ids_to_toggle = set xs;
                      toggled = toggle_ids ids_to_toggle (selectable_files s);
                      valid_ids_toggled = {i \<in> id_entry ` set (selectable_files s). i \<in> ids_to_toggle}
                  in (Continue (s\<lparr>selectable_files := toggled\<rparr>),
                      [Options]
                      @ map (\<lambda>f_info. NowSelected (rel_path_str f_info) (selected f_info))
                            (filter (\<lambda>f_info. id_entry f_info \<in> ids_to_toggle) toggled)
                      @ (if ids_to_toggle - valid_ids_toggled = {} then []
                         else [WarningNotFound (ids_to_toggle - valid_ids_toggled)])))))"
    using assms(1) unfolding loop_body_def user_input.case u_def [symmetric]
    by (simp only: Let_def if_False)
  have tg: "map path_obj (toggle_ids ids fs) = map path_obj fs
          \<and> map id_entry (toggle_ids ids fs) = map id_entry fs" for ids fs
    by (simp add: toggle_ids_def comp_def)
  show ?thesis
  proof (cases "those (map py_int (split u))")
    case None
    with assms(2) show ?thesis unfolding lb
      by (auto simp add: comp_def split: if_splits)
  next
    case (Some xs)
    with assms(2) show ?thesis unfolding lb
      by (auto simp add: comp_def tg Let_def split: if_splits)
  qed
qed
lemma loop_body_Continue:
  assumes "loop_body init root_dir s inp = (Continue s', printed)"
  shows "(current_interactive_exclusions s' = current_interactive_exclusions s
          \<and> current_shown_files s' = current_shown_files s
          \<and> map path_obj (selectable_files s') = map path_obj (selectable_files s)
          \<and> map id_entry (selectable_files s') = map id_entry (selectable_files s))
       \<or> (\<exists>exts pr. current_interactive_exclusions s' = current_interactive_exclusions s \<union> exts
            \<and> \<not> exts \<subseteq> current_interactive_exclusions s
            \<and> [] \<notin> exts
            \<and> rebuild_selectable_list init (current_interactive_exclusions s') root_dir
                = Inr ((selectable_files s', current_shown_files s'), pr))"
proof (cases inp)
  case KeyboardInterrupt
  with assms show ?thesis by (simp add: loop_body_def)
next
  case (Line raw)
  let ?u = "lower (strip raw)"
  let ?exts = "normalize_extensions (Some (tl (split ?u)))"
  show ?thesis
  proof (cases "prefix ''exclude '' ?u")
    case False
    from loop_body_other_Continue [OF False assms [unfolded Line]] show ?thesis by blast
  next
    case pre: True
    show ?thesis
    proof (cases "1 < length (split ?u)")
      case False
      from assms show ?thesis
        unfolding Line loop_body_exclude_usage [OF pre False] by simp
    next
      case len: True
      show ?thesis
      proof (cases "?exts \<subseteq> current_interactive_exclusions s")
        case True
        from assms show ?thesis
          unfolding Line loop_body_exclude_known [OF pre len True] by simp
      next
        case False
        from assms obtain rebuilt shown pr where
          rb: "rebuild_selectable_list init (current_interactive_exclusions s \<union> ?exts) root_dir
                 = Inr ((rebuilt, shown), pr)"
          and s': "s' = \<lparr>current_interactive_exclusions = current_interactive_exclusions s \<union> ?exts,
                         selectable_files = rebuilt, current_shown_files = shown\<rparr>"
          unfolding Line loop_body_exclude_new [OF pre len False]
          by (auto split: sum.splits)
        have "[] \<notin> ?exts" by (rule empty_not_normalized)
        with False rb show ?thesis unfolding s' by (intro disjI2 exI [of _ ?exts]) auto
      qed
    qed
  qed
qed

lemma reachable_invariant:
  assumes "reachable init root_dir s"
  shows "[] \<notin> current_interactive_exclusions s
       \<and> current_shown_files s
           = filter (\<lambda>p. lower (path_suffix p) \<notin> current_interactive_exclusions s) init
       \<and> map path_obj (selectable_files s) = current_shown_files s"
  using assms
proof (induction rule: reachable.induct)
  case (start selectable shown printed)
  from rebuild_selectable_list_result [OF start(2)] show ?case by simp
next
  case (step s inp s' printed)
  from loop_body_Continue [OF step(2)] show ?case
  proof
    assume "current_interactive_exclusions s' = current_interactive_exclusions s
          \<and> current_shown_files s' = current_shown_files s
          \<and> map path_obj (selectable_files s') = map path_obj (selectable_files s)
          \<and> map id_entry (selectable_files s') = map id_entry (selectable_files s)"
    with step.IH show ?thesis by simp
  next
    assume "\<exists>exts pr. current_interactive_exclusions s' = current_interactive_exclusions s \<union> exts
            \<and> \<not> exts \<subseteq> current_interactive_exclusions s
            \<and> [] \<notin> exts
            \<and> rebuild_selectable_list init (current_interactive_exclusions s') root_dir
                = Inr ((selectable_files s', current_shown_files s'), pr)"
    then obtain exts pr where
      e: "current_interactive_exclusions s' = current_interactive_exclusions s \<union> exts"
      and n: "[] \<notin> exts"
      and rb: "rebuild_selectable_list init (current_interactive_exclusions s') root_dir
                = Inr ((selectable_files s', current_shown_files s'), pr)"
      by blast
    from rebuild_selectable_list_result [OF rb] step.IH e n show ?thesis by simp
  qed
qed

text \<open>What the review function returns on confirmation is the selection of a reachable
  session (or nothing, when there was nothing to review).\<close>

lemma review_loop_returns_reachable:
  "reachable init root_dir s \<Longrightarrow>
   review_loop init root_dir s inputs = (Returned (Some fs), printed) \<Longrightarrow>
   \<exists>s'. reachable init root_dir s' \<and> fs = final_selected_files s'"
proof (induction inputs arbitrary: s printed)
  case Nil
  then show ?case by simp
next
  case (Cons inp inputs)
  obtain res pr where lb: "loop_body init root_dir s inp = (res, pr)" by (cases "loop_body init root_dir s inp")
  show ?case
  proof (cases res)
    case (Continue s1)
    with lb have r1: "reachable init root_dir s1"
      using Cons.prems(1) reachable.step by blast
    obtain r2 pr2 where rl: "review_loop init root_dir s1 inputs = (r2, pr2)"
      by (cases "review_loop init root_dir s1 inputs")
    with Cons.prems(2) lb Continue have "r2 = Returned (Some fs)" by simp
    with rl Cons.IH [OF r1] show ?thesis by blast
  next
    case (Break s1)
    from lb Break have "s1 = s"
      by (cases inp) (auto simp: loop_body_def Let_def split: if_splits sum.splits option.splits prod.splits)
    with Cons.prems lb Break show ?thesis by auto
  next
    case ReturnNone
    with Cons.prems(2) lb show ?thesis by simp
  next
    case (Raise e)
    with Cons.prems(2) lb show ?thesis by simp
  qed
qed
lemma review_returns_reachable:
  assumes "review_and_filter_files_interactive init root_dir inputs
             = (Returned (Some fs), printed)"
  shows "fs = [] \<or> (\<exists>s. reachable init root_dir s \<and> fs = final_selected_files s)"
proof (cases "init = []")
  case True
  with assms show ?thesis by (simp add: review_and_filter_files_interactive_def)
next
  case ne: False
  show ?thesis
  proof (cases "rebuild_selectable_list init {} root_dir")
    case (Inl e)
    with assms ne show ?thesis
      by (simp add: review_and_filter_files_interactive_def split: prod.splits)
  next
    case (Inr r)
    obtain selectable shown pr where r: "r = ((selectable, shown), pr)"
      by (cases r) auto
    show ?thesis
    proof (cases "selectable = []")
      case True
      with assms ne Inr r show ?thesis
        by (simp add: review_and_filter_files_interactive_def)
    next
      case False
      let ?s = "\<lparr>current_interactive_exclusions = {}, selectable_files = selectable,
                 current_shown_files = shown\<rparr>"
      from ne Inr r False have rs: "reachable init root_dir ?s"
        by (intro reachable.start) simp_all
      obtain r2 pr2 where rl: "review_loop init root_dir ?s inputs = (r2, pr2)"
        by (cases "review_loop init root_dir ?s inputs")
      with assms ne Inr r False have "r2 = Returned (Some fs)"
        by (simp add: review_and_filter_files_interactive_def)
      with rl review_loop_returns_reachable [OF rs] show ?thesis by blast
    qed
  qed
qed

lemma lower_char_not_space: "\<not> is_space c \<Longrightarrow> \<not> is_space (lower_char c)"
proof -
  assume ns: "\<not> is_space c"
  define n where "n = (of_char c :: nat)"
  show ?thesis
  proof (cases "(65 \<le> n \<and> n \<le> 90) \<or> (192 \<le> n \<and> n \<le> 222 \<and> n \<noteq> 215)")
    case False
    then have "lower_char c = c" unfolding n_def lower_char_def Let_def by (rule if_not_P)
    with ns show ?thesis by simp
  next
    case True
    then have lc: "lower_char c = char_of (n + 32)" by (simp add: lower_char_def n_def)
    from True have "n + 32 < 256" by linarith
    then have o: "(of_char (char_of (n + 32) :: char) :: nat) = n + 32" by simp
    from True have "n + 32 \<notin> {9, 10, 11, 12, 13, 28, 29, 30, 31, 32, 133, 160}"
      by auto
    then show ?thesis unfolding lc is_space_def o .
  qed
qed

lemma strip_last_not_space: "strip s \<noteq> [] \<Longrightarrow> \<not> is_space (last (strip s))"
proof -
  assume ne: "strip s \<noteq> []"
  let ?r = "dropWhile is_space (rev (dropWhile is_space s))"
  from ne have r: "?r \<noteq> []" by (simp add: strip_def)
  then have "\<not> is_space (hd ?r)" by (rule hd_dropWhile)
  moreover have "last (strip s) = hd ?r" using r by (simp add: strip_def last_rev)
  ultimately show ?thesis by simp
qed

lemma split_aux_cur: "cur \<noteq> [] \<Longrightarrow> split_aux cur r \<noteq> []"
  by (induction r arbitrary: cur) auto

lemma split_aux_nonempty: "\<exists>c \<in> set r. \<not> is_space c \<Longrightarrow> split_aux cur r \<noteq> []"
proof (induction r arbitrary: cur)
  case Nil
  then show ?case by simp
next
  case (Cons c cs)
  show ?case
  proof (cases "is_space c")
    case True
    with Cons.prems have "\<exists>c \<in> set cs. \<not> is_space c" by auto
    from Cons.IH [OF this] True show ?thesis by simp
  next
    case False
    then show ?thesis by (simp add: split_aux_cur)
  qed
qed

lemma split_exclude: "split (''exclude '' @ r) = ''exclude'' # split_aux [] r"
  by (simp add: split_def is_space_def)

lemma exclude_has_tokens:
  assumes "prefix ''exclude '' (lower (strip raw))"
  shows "1 < length (split (lower (strip raw)))"
proof -
  from assms obtain r where r: "lower (strip raw) = ''exclude '' @ r"
    by (auto simp: prefix_def)
  then have ne: "strip raw \<noteq> []" by (auto simp: lower_def)
  then have "\<not> is_space (last (strip raw))" by (rule strip_last_not_space)
  then have "\<not> is_space (lower_char (last (strip raw)))" by (rule lower_char_not_space)
  moreover have "last (lower (strip raw)) = lower_char (last (strip raw))"
    using ne by (simp add: lower_def last_map)
  ultimately have ls: "\<not> is_space (last (''exclude '' @ r))" by (simp add: r)
  have "r \<noteq> []"
  proof
    assume "r = []"
    with ls show False by (simp add: is_space_def)
  qed
  with ls have "\<not> is_space (last r)" by simp
  with \<open>r \<noteq> []\<close> have "\<exists>c \<in> set r. \<not> is_space c" using last_in_set by blast
  then have "split_aux [] r \<noteq> []" by (rule split_aux_nonempty)
  then show ?thesis unfolding r split_exclude by (cases "split_aux [] r") simp_all
qed

lemma those_map_None: "(those (map f xs) = None) = (\<exists>x \<in> set xs. f x = None)"
  by (induction xs) (auto split: option.splits)

text \<open>
  Claim C7. Whenever a pass through the review loop leaves the interactive exclusion set
  different from what it was, the set has grown, and the selectable list is the original
  list of discovered files filtered by the whole new exclusion set (not the previous
  selectable list filtered further), with the ids 1..k in order and every entry
  selected.
\<close>

theorem exclusion_growth_rebuilds:
  assumes "loop_body init root_dir s inp = (Continue s', printed)"
      and "current_interactive_exclusions s' \<noteq> current_interactive_exclusions s"
  shows "current_interactive_exclusions s \<subset> current_interactive_exclusions s'
       \<and> current_shown_files s'
           = filter (\<lambda>p. lower (path_suffix p) \<notin> current_interactive_exclusions s') init
       \<and> map path_obj (selectable_files s')
           = filter (\<lambda>p. lower (path_suffix p) \<notin> current_interactive_exclusions s') init
       \<and> map id_entry (selectable_files s') = map int [1..<Suc (length (selectable_files s'))]
       \<and> (\<forall>f \<in> set (selectable_files s'). selected f)"
proof -
  from loop_body_Continue [OF assms(1)] assms(2)
  obtain exts pr where
    e: "current_interactive_exclusions s' = current_interactive_exclusions s \<union> exts"
    and n: "\<not> exts \<subseteq> current_interactive_exclusions s"
    and rb: "rebuild_selectable_list init (current_interactive_exclusions s') root_dir
                = Inr ((selectable_files s', current_shown_files s'), pr)"
    by blast
  from e n have "current_interactive_exclusions s \<subset> current_interactive_exclusions s'"
    by blast
  with rebuild_selectable_list_result [OF rb] show ?thesis by simp
qed

theorem exclusion_growth_rebuilds_witness:
  "loop_body [[''r'', ''a.py''], [''r'', ''Dockerfile''], [''r'', ''b.js'']] [''r'']
     \<lparr>current_interactive_exclusions = {''.js''},
      selectable_files =
        [\<lparr>id_entry = 1, path_obj = [''r'', ''a.py''], rel_path_str = ''a.py'', selected = True\<rparr>,
         \<lparr>id_entry = 2, path_obj = [''r'', ''Dockerfile''], rel_path_str = ''Dockerfile'',
          selected = False\<rparr>],
      current_shown_files = [[''r'', ''a.py''], [''r'', ''Dockerfile'']]\<rparr>
     (Line ''exclude .py'')
   = (Continue
        \<lparr>current_interactive_exclusions = {''.js'', ''.py''},
         selectable_files =
           [\<lparr>id_entry = 1, path_obj = [''r'', ''Dockerfile''], rel_path_str = ''Dockerfile'',
             selected = True\<rparr>],
         current_shown_files = [[''r'', ''Dockerfile'']]\<rparr>,
      [Options, AddedToExclusions {''.py''}, UpdatedFileList, FoundFiles 1,
       ListedFile 1 ''Dockerfile''])
   \<and> {''.js'', ''.py''} \<noteq> {''.js''}
   \<and> [[''r'', ''Dockerfile'']]
       = filter (\<lambda>p. lower (path_suffix p) \<notin> {''.js'', ''.py''})
           [[''r'', ''a.py''], [''r'', ''Dockerfile''], [''r'', ''b.js'']]"
proof -
  let ?init = "[[''r'', ''a.py''], [''r'', ''Dockerfile''], [''r'', ''b.js'']]"
  let ?s = "\<lparr>current_interactive_exclusions = {''.js''},
      selectable_files =
        [\<lparr>id_entry = 1, path_obj = [''r'', ''a.py''], rel_path_str = ''a.py'', selected = True\<rparr>,
         \<lparr>id_entry = 2, path_obj = [''r'', ''Dockerfile''], rel_path_str = ''Dockerfile'',
          selected = False\<rparr>],
      current_shown_files = [[''r'', ''a.py''], [''r'', ''Dockerfile'']]\<rparr>"
  let ?s' = "\<lparr>current_interactive_exclusions = {''.js'', ''.py''},
         selectable_files =
           [\<lparr>id_entry = 1, path_obj = [''r'', ''Dockerfile''], rel_path_str = ''Dockerfile'',
             selected = True\<rparr>],
         current_shown_files = [[''r'', ''Dockerfile'']]\<rparr>"
  have h1: "loop_body ?init [''r''] ?s (Line ''exclude .py'')
      = (Continue ?s', [Options, AddedToExclusions {''.py''}, UpdatedFileList, FoundFiles 1,
       ListedFile 1 ''Dockerfile''])"
    by code_simp
  have h2: "current_interactive_exclusions ?s' \<noteq> current_interactive_exclusions ?s"
    by simp
  from exclusion_growth_rebuilds [OF h1 h2] h1 h2 show ?thesis by simp
qed

text \<open>
  Claim C8. An \<open>exclude\<close> line whose extensions are all in the interactive exclusion set
  already leaves the whole session (exclusion set, entries with their ids and selected
  flags) as it was, rebuilds nothing and reports the extensions as already excluded; in
  particular this is what a second application of the same \<open>exclude\<close> line does.
\<close>

theorem exclude_idempotent:
  assumes "prefix ''exclude '' (lower (strip raw))"
  shows "(normalize_extensions (Some (tl (split (lower (strip raw)))))
            \<subseteq> current_interactive_exclusions s \<longrightarrow>
          loop_body init root_dir s (Line raw)
            = (Continue s,
               [Options, AlreadyExcludedOrInvalid
                           (normalize_extensions (Some (tl (split (lower (strip raw))))))]))
       \<and> (loop_body init root_dir s (Line raw) = (Continue s', printed) \<longrightarrow>
          loop_body init root_dir s' (Line raw)
            = (Continue s',
               [Options, AlreadyExcludedOrInvalid
                           (normalize_extensions (Some (tl (split (lower (strip raw))))))]))"
proof (intro conjI impI)
  let ?exts = "normalize_extensions (Some (tl (split (lower (strip raw)))))"
  note len = exclude_has_tokens [OF assms]
  show known: "loop_body init root_dir s (Line raw)
            = (Continue s, [Options, AlreadyExcludedOrInvalid ?exts])"
    if "?exts \<subseteq> current_interactive_exclusions s" for s
    using that by (rule loop_body_exclude_known [OF assms len])
  assume first: "loop_body init root_dir s (Line raw) = (Continue s', printed)"
  have "?exts \<subseteq> current_interactive_exclusions s'"
  proof (cases "?exts \<subseteq> current_interactive_exclusions s")
    case True
    from first have "s' = s" unfolding known [OF True] by simp
    with True show ?thesis by simp
  next
    case False
    from first show ?thesis
      unfolding loop_body_exclude_new [OF assms len False]
      by (auto split: sum.splits)
  qed
  then show "loop_body init root_dir s' (Line raw)
            = (Continue s', [Options, AlreadyExcludedOrInvalid ?exts])"
    by (rule known)
qed

theorem exclude_idempotent_witness:
  "prefix ''exclude '' (lower (strip '' Exclude .PY py ''))
   \<and> normalize_extensions (Some (tl (split (lower (strip '' Exclude .PY py ''))))) = {''.py''}
   \<and> loop_body [[''r'', ''a.py''], [''r'', ''Dockerfile'']] [''r'']
         \<lparr>current_interactive_exclusions = {''.py''},
          selectable_files =
            [\<lparr>id_entry = 1, path_obj = [''r'', ''Dockerfile''], rel_path_str = ''Dockerfile'',
              selected = False\<rparr>],
          current_shown_files = [[''r'', ''Dockerfile'']]\<rparr>
         (Line '' Exclude .PY py '')
       = (Continue
            \<lparr>current_interactive_exclusions = {''.py''},
             selectable_files =
               [\<lparr>id_entry = 1, path_obj = [''r'', ''Dockerfile''], rel_path_str = ''Dockerfile'',
                 selected = False\<rparr>],
             current_shown_files = [[''r'', ''Dockerfile'']]\<rparr>,
          [Options, AlreadyExcludedOrInvalid {''.py''}])
   \<and> loop_body [[''r'', ''a.py''], [''r'', ''Dockerfile'']] [''r'']
         \<lparr>current_interactive_exclusions = {},
          selectable_files =
            [\<lparr>id_entry = 1, path_obj = [''r'', ''a.py''], rel_path_str = ''a.py'',
              selected = True\<rparr>,
             \<lparr>id_entry = 2, path_obj = [''r'', ''Dockerfile''], rel_path_str = ''Dockerfile'',
              selected = True\<rparr>],
          current_shown_files = [[''r'', ''a.py''], [''r'', ''Dockerfile'']]\<rparr>
         (Line '' Exclude .PY py '')
       = (Continue
            \<lparr>current_interactive_exclusions = {''.py''},
             selectable_files =
               [\<lparr>id_entry = 1, path_obj = [''r'', ''Dockerfile''], rel_path_str = ''Dockerfile'',
                 selected = True\<rparr>],
             current_shown_files = [[''r'', ''Dockerfile'']]\<rparr>,
          [Options, AddedToExclusions {''.py''}, UpdatedFileList, FoundFiles 1,
           ListedFile 1 ''Dockerfile''])
   \<and> loop_body [[''r'', ''a.py''], [''r'', ''Dockerfile'']] [''r'']
         \<lparr>current_interactive_exclusions = {''.py''},
          selectable_files =
            [\<lparr>id_entry = 1, path_obj = [''r'', ''Dockerfile''], rel_path_str = ''Dockerfile'',
              selected = True\<rparr>],
          current_shown_files = [[''r'', ''Dockerfile'']]\<rparr>
         (Line '' Exclude .PY py '')
       = (Continue
            \<lparr>current_interactive_exclusions = {''.py''},
             selectable_files =
               [\<lparr>id_entry = 1, path_obj = [''r'', ''Dockerfile''], rel_path_str = ''Dockerfile'',
                 selected = True\<rparr>],
             current_shown_files = [[''r'', ''Dockerfile'']]\<rparr>,
          [Options, AlreadyExcludedOrInvalid {''.py''}])"
proof -
  let ?fresh = "\<lparr>current_interactive_exclusions = {},
          selectable_files =
            [\<lparr>id_entry = 1, path_obj = [''r'', ''a.py''], rel_path_str = ''a.py'',
              selected = True\<rparr>,
             \<lparr>id_entry = 2, path_obj = [''r'', ''Dockerfile''], rel_path_str = ''Dockerfile'',
              selected = True\<rparr>],
          current_shown_files = [[''r'', ''a.py''], [''r'', ''Dockerfile'']]\<rparr>"
  let ?after = "\<lparr>current_interactive_exclusions = {''.py''},
          selectable_files =
            [\<lparr>id_entry = 1, path_obj = [''r'', ''Dockerfile''], rel_path_str = ''Dockerfile'',
              selected = True\<rparr>],
          current_shown_files = [[''r'', ''Dockerfile'']]\<rparr>"
  have first: "loop_body [[''r'', ''a.py''], [''r'', ''Dockerfile'']] [''r''] ?fresh
        (Line '' Exclude .PY py '')
      = (Continue ?after, [Options, AddedToExclusions {''.py''}, UpdatedFileList, FoundFiles 1,
           ListedFile 1 ''Dockerfile''])"
    by code_simp
  let ?s = "\<lparr>current_interactive_exclusions = {''.py''},
          selectable_files =
            [\<lparr>id_entry = 1, path_obj = [''r'', ''Dockerfile''], rel_path_str = ''Dockerfile'',
              selected = False\<rparr>],
          current_shown_files = [[''r'', ''Dockerfile'']]\<rparr>"
  have h: "prefix ''exclude '' (lower (strip '' Exclude .PY py ''))" by code_simp
  have e: "normalize_extensions (Some (tl (split (lower (strip '' Exclude .PY py ''))))) = {''.py''}"
    by code_simp
  then have sub: "normalize_extensions (Some (tl (split (lower (strip '' Exclude .PY py '')))))
      \<subseteq> current_interactive_exclusions ?s" by simp
  from exclude_idempotent [OF h, where s = ?s
         and init = "[[''r'', ''a.py''], [''r'', ''Dockerfile'']]" and root_dir = "[''r'']"] sub
  have "loop_body [[''r'', ''a.py''], [''r'', ''Dockerfile'']] [''r''] ?s (Line '' Exclude .PY py '')
      = (Continue ?s, [Options, AlreadyExcludedOrInvalid
           (normalize_extensions (Some (tl (split (lower (strip '' Exclude .PY py ''))))))])"
    by blast
  then have known: "loop_body [[''r'', ''a.py''], [''r'', ''Dockerfile'']] [''r''] ?s
        (Line '' Exclude .PY py '') = (Continue ?s, [Options, AlreadyExcludedOrInvalid {''.py''}])"
    by (simp only: e)
  from exclude_idempotent [OF h, where s = ?fresh and s' = ?after
         and init = "[[''r'', ''a.py''], [''r'', ''Dockerfile'']]" and root_dir = "[''r'']"] first
  have "loop_body [[''r'', ''a.py''], [''r'', ''Dockerfile'']] [''r''] ?after (Line '' Exclude .PY py '')
      = (Continue ?after, [Options, AlreadyExcludedOrInvalid
           (normalize_extensions (Some (tl (split (lower (strip '' Exclude .PY py ''))))))])"
    by blast
  then have second: "loop_body [[''r'', ''a.py''], [''r'', ''Dockerfile'']] [''r''] ?after
        (Line '' Exclude .PY py '') = (Continue ?after, [Options, AlreadyExcludedOrInvalid {''.py''}])"
    by (simp only: e)
  from h e known first second show ?thesis by blast
qed

text \<open>
  Claim C9. A line that is none of the keywords, does not start an \<open>exclude\<close> command
  and has a token that \<open>int\<close> rejects is answered with the usage message and the loop
  continues with the session unchanged: no entry is toggled, whatever integer tokens the
  line also has, and the exclusion set stays the same.
\<close>

theorem non_integer_input_rejected:
  assumes "lower (strip raw) \<notin> {[], ''done'', ''cancel'', ''list'', ''all'', ''none''}"
      and "\<not> prefix ''exclude '' (lower (strip raw))"
      and "\<exists>tok \<in> set (split (lower (strip raw))). py_int tok = None"
  shows "loop_body init root_dir s (Line raw) = (Continue s, [Options, InvalidInput])"
proof -
  from assms(3) have "those (map py_int (split (lower (strip raw)))) = None"
    by (simp only: those_map_None)
  with assms(1,2) show ?thesis
    by (simp add: loop_body_def Let_def)
qed

theorem non_integer_input_rejected_witness:
  "lower (strip ''1 x 2'') \<notin> {[], ''done'', ''cancel'', ''list'', ''all'', ''none''}
   \<and> \<not> prefix ''exclude '' (lower (strip ''1 x 2''))
   \<and> split (lower (strip ''1 x 2'')) = [''1'', ''x'', ''2'']
   \<and> py_int ''x'' = None \<and> py_int ''1'' = Some 1
   \<and> loop_body [[''r'', ''a.py''], [''r'', ''Dockerfile'']] [''r'']
         \<lparr>current_interactive_exclusions = {},
          selectable_files =
            [\<lparr>id_entry = 1, path_obj = [''r'', ''a.py''], rel_path_str = ''a.py'',
              selected = True\<rparr>,
             \<lparr>id_entry = 2, path_obj = [''r'', ''Dockerfile''], rel_path_str = ''Dockerfile'',
              selected = True\<rparr>],
          current_shown_files = [[''r'', ''a.py''], [''r'', ''Dockerfile'']]\<rparr>
         (Line ''1 x 2'')
       = (Continue
            \<lparr>current_interactive_exclusions = {},
             selectable_files =
               [\<lparr>id_entry = 1, path_obj = [''r'', ''a.py''], rel_path_str = ''a.py'',
                 selected = True\<rparr>,
                \<lparr>id_entry = 2, path_obj = [''r'', ''Dockerfile''], rel_path_str = ''Dockerfile'',
                 selected = True\<rparr>],
             current_shown_files = [[''r'', ''a.py''], [''r'', ''Dockerfile'']]\<rparr>,
          [Options, InvalidInput])"
proof -
  have h1: "lower (strip ''1 x 2'') \<notin> {[], ''done'', ''cancel'', ''list'', ''all'', ''none''}"
    by code_simp
  have h2: "\<not> prefix ''exclude '' (lower (strip ''1 x 2''))" by code_simp
  have sp: "split (lower (strip ''1 x 2'')) = [''1'', ''x'', ''2'']" by code_simp
  have x: "py_int ''x'' = None" by code_simp
  have one: "py_int ''1'' = Some 1" by code_simp
  have h3: "\<exists>tok \<in> set (split (lower (strip ''1 x 2''))). py_int tok = None"
    unfolding sp using x by simp
  from non_integer_input_rejected [OF h1 h2 h3] h1 h2 sp x one show ?thesis by blast
qed

text \<open>
  Claim C10. In every session a review can reach, the empty string is not in the
  interactive exclusion set, so a discovered file whose name has no suffix is still in the
  shown list and among the selectable entries, whatever commands were given.
\<close>

theorem extensionless_file_never_excluded:
  assumes "reachable init root_dir s" and "p \<in> set init" and "path_suffix p = []"
  shows "[] \<notin> current_interactive_exclusions s
       \<and> p \<in> set (current_shown_files s)
       \<and> p \<in> path_obj ` set (selectable_files s)"
proof -
  from reachable_invariant [OF assms(1)]
  have n: "[] \<notin> current_interactive_exclusions s"
    and sh: "current_shown_files s
           = filter (\<lambda>p. lower (path_suffix p) \<notin> current_interactive_exclusions s) init"
    and po: "map path_obj (selectable_files s) = current_shown_files s"
    by simp_all
  from assms(2,3) n have "p \<in> set (current_shown_files s)"
    unfolding sh by (simp add: lower_def)
  moreover from po have "set (current_shown_files s) = path_obj ` set (selectable_files s)"
    by (metis set_map)
  ultimately show ?thesis using n by simp
qed

theorem extensionless_file_never_excluded_witness:
  "reachable [[''r'', ''a.py''], [''r'', ''Dockerfile'']] [''r'']
     \<lparr>current_interactive_exclusions = {''.'', ''.py''},
      selectable_files =
        [\<lparr>id_entry = 1, path_obj = [''r'', ''Dockerfile''], rel_path_str = ''Dockerfile'',
          selected = True\<rparr>],
      current_shown_files = [[''r'', ''Dockerfile'']]\<rparr>
   \<and> [''r'', ''Dockerfile''] \<in> set [[''r'', ''a.py''], [''r'', ''Dockerfile'']]
   \<and> path_suffix [''r'', ''Dockerfile''] = []
   \<and> [''r'', ''Dockerfile''] \<in> set [[''r'', ''Dockerfile'']]"
proof -
  let ?init = "[[''r'', ''a.py''], [''r'', ''Dockerfile'']]"
  let ?fresh = "\<lparr>current_interactive_exclusions = {},
      selectable_files =
        [\<lparr>id_entry = 1, path_obj = [''r'', ''a.py''], rel_path_str = ''a.py'', selected = True\<rparr>,
         \<lparr>id_entry = 2, path_obj = [''r'', ''Dockerfile''], rel_path_str = ''Dockerfile'',
          selected = True\<rparr>],
      current_shown_files = ?init\<rparr>"
  let ?after = "\<lparr>current_interactive_exclusions = {''.'', ''.py''},
      selectable_files =
        [\<lparr>id_entry = 1, path_obj = [''r'', ''Dockerfile''], rel_path_str = ''Dockerfile'',
          selected = True\<rparr>],
      current_shown_files = [[''r'', ''Dockerfile'']]\<rparr>"
  have rb: "rebuild_selectable_list ?init {} [''r'']
      = Inr ((selectable_files ?fresh, ?init),
             [UpdatedFileList, FoundFiles 2, ListedFile 1 ''a.py'', ListedFile 2 ''Dockerfile''])"
    by code_simp
  have r0: "reachable ?init [''r''] ?fresh"
    by (rule reachable.start [OF _ rb [simplified]]) simp_all
  have st: "loop_body ?init [''r''] ?fresh (Line ''exclude . py'')
      = (Continue ?after, [Options, AddedToExclusions {''.'', ''.py''}, UpdatedFileList,
           FoundFiles 1, ListedFile 1 ''Dockerfile''])"
    by code_simp
  have r1: "reachable ?init [''r''] ?after" by (rule reachable.step [OF r0 st])
  have m: "[''r'', ''Dockerfile''] \<in> set ?init" by simp
  have sf: "path_suffix [''r'', ''Dockerfile''] = []" by code_simp
  from extensionless_file_never_excluded [OF r1 m sf] r1 m sf show ?thesis by simp
qed

section \<open>Properties of the budget\<close>

lemma chunk_lengths_nonneg: "0 \<le> sum_list (map (\<lambda>(k, c). int (length c)) chunks)"
  by (induction chunks) auto

lemma chunk_loop_send:
  assumes "strip c \<noteq> []"
      and "\<not> (m > 0 \<and> total_chars_processed st + int (length c) > m
               \<and> total_chars_processed st < m)"
  shows "chunk_loop a m rel i nf nc st ((k, c) # chunks)
       = (let display_filepath =
                (if nc > 1
                 then rel @ '' (Chunk '' @ str_nat (k + 1) @ ''/'' @ str_nat nc @ '')''
                 else rel);
              st1 = st\<lparr>printed_events :=
                          printed_events st @ [AnalyzingChunk (k + 1) nc (int (length c))],
                        llm_calls := llm_calls st @ [(display_filepath, c)],
                        all_llm_findings :=
                          (if a display_filepath c \<noteq> []
                           then all_llm_findings st @ [a display_filepath c]
                           else all_llm_findings st),
                        total_chars_processed := total_chars_processed st + int (length c)\<rparr>
          in if m > 0 \<and> total_chars_processed st1 \<ge> m then
               (if int i < int nf - 1 \<or> int k < int nc - 1
                then st1\<lparr>printed_events := printed_events st1 @ [InfoLimitReached m]\<rparr>
                else st1)
             else chunk_loop a m rel i nf nc st1 chunks)"
proof -
  from assms(2) have c: "(m > 0 \<and> total_chars_processed st + int (length c) > m
               \<and> total_chars_processed st < m) = False" by simp
  from assms(1) have b: "(strip c = []) = False" by simp
  show ?thesis
    unfolding chunk_loop.simps Let_def c b if_False ..
qed

lemma chunk_loop_sent:
  "total_chars_processed st = sent_chars st \<Longrightarrow>
   total_chars_processed (chunk_loop a m rel i nf nc st chunks)
     = sent_chars (chunk_loop a m rel i nf nc st chunks)
   \<and> total_chars_processed (chunk_loop a m rel i nf nc st chunks)
       \<le> total_chars_processed st + sum_list (map (\<lambda>(k, c). int (length c)) chunks)"
proof (induction chunks arbitrary: st)
  case Nil
  then show ?case by simp
next
  case (Cons kc chunks)
  obtain k c where kc: "kc = (k, c)" by (cases kc)
  let ?disp = "if nc > 1 then rel @ '' (Chunk '' @ str_nat (k + 1) @ ''/'' @ str_nat nc @ '')''
               else rel"
  let ?st1 = "st\<lparr>printed_events := printed_events st @ [AnalyzingChunk (k + 1) nc (int (length c))],
                 llm_calls := llm_calls st @ [(?disp, c)],
                 all_llm_findings := (if a ?disp c \<noteq> [] then all_llm_findings st @ [a ?disp c]
                                      else all_llm_findings st),
                 total_chars_processed := total_chars_processed st + int (length c)\<rparr>"
  have inv1: "total_chars_processed ?st1 = sent_chars ?st1"
    using Cons.prems by (simp add: sent_chars_def)
  have t1: "total_chars_processed ?st1 = total_chars_processed st + int (length c)" by simp
  consider (blank) "strip c = []"
    | (stop) "strip c \<noteq> []" "m > 0 \<and> total_chars_processed st + int (length c) > m
                              \<and> total_chars_processed st < m"
    | (send) "strip c \<noteq> []" "\<not> (m > 0 \<and> total_chars_processed st + int (length c) > m
                              \<and> total_chars_processed st < m)"
    by blast
  then show ?case
  proof cases
    case blank
    then have eq: "chunk_loop a m rel i nf nc st ((k, c) # chunks)
        = chunk_loop a m rel i nf nc st chunks"
      by simp
    from Cons.IH [OF Cons.prems] show ?thesis unfolding kc eq by simp
  next
    case stop
    then have eq: "chunk_loop a m rel i nf nc st ((k, c) # chunks)
        = st\<lparr>printed_events := printed_events st @ [InfoChunkOverBudget m]\<rparr>"
      by simp
    from Cons.prems chunk_lengths_nonneg [of chunks] show ?thesis
      unfolding kc eq by (simp add: sent_chars_def)
  next
    case send
    show ?thesis
    proof (cases "m > 0 \<and> total_chars_processed ?st1 \<ge> m")
      case True
      then have eq: "chunk_loop a m rel i nf nc st ((k, c) # chunks)
          = (if int i < int nf - 1 \<or> int k < int nc - 1
             then ?st1\<lparr>printed_events := printed_events ?st1 @ [InfoLimitReached m]\<rparr>
             else ?st1)"
        unfolding chunk_loop_send [OF send] Let_def by (simp only: if_True simp_thms)
      from inv1 chunk_lengths_nonneg [of chunks] show ?thesis
        unfolding kc eq by (simp add: sent_chars_def)
    next
      case False
      then have eq: "chunk_loop a m rel i nf nc st ((k, c) # chunks)
          = chunk_loop a m rel i nf nc ?st1 chunks"
        unfolding chunk_loop_send [OF send] Let_def by (simp only: if_False simp_thms)
      from Cons.IH [OF inv1] t1 show ?thesis unfolding kc eq by simp
    qed
  qed
qed

lemma enumerate_lengths:
  "sum_list (map (\<lambda>(k, c). int (length c)) (enumerate n xs)) = int (length (concat xs))"
  by (induction xs arbitrary: n) simp_all

lemma chunk_content_total:
  "sum_list (map (\<lambda>(k, c). int (length c)) (enumerate 0 (chunk_content content cs)))
     = int (length content)"
proof (cases "0 < cs")
  case True
  then have "concat (chunk_content content cs) = content"
    using py_range_concat [of "nat cs" content 0] by (simp add: chunk_content_def)
  then show ?thesis by (simp only: enumerate_lengths)
next
  case False
  then show ?thesis by (simp add: chunk_content_def)
qed

lemma file_loop_run:
  assumes "strip content \<noteq> []"
      and "\<not> (m > 0 \<and> total_chars_processed st + int (length content) > m
               \<and> total_chars_processed st < m)"
  shows "file_loop a cs m nf st ((i, rel, Inr content) # rest)
       = (let st1 = chunk_loop a m rel i nf (length (chunk_content content cs))
                      (st\<lparr>printed_events :=
                             printed_events st @ [ProcessingFile (i + 1) nf rel]\<rparr>)
                      (enumerate 0 (chunk_content content cs))
          in if m > 0 \<and> total_chars_processed st1 \<ge> m then st1
             else file_loop a cs m nf st1 rest)"
proof -
  let ?c = "m > 0 \<and> total_chars_processed
               (st\<lparr>printed_events := printed_events st @ [ProcessingFile (i + 1) nf rel]\<rparr>)
               + int (length content) > m
            \<and> total_chars_processed
               (st\<lparr>printed_events := printed_events st @ [ProcessingFile (i + 1) nf rel]\<rparr>)
               < m"
  from assms(2) have c: "?c = False" by simp
  from assms(1) have b: "(strip content = []) = False" by simp
  show ?thesis
    unfolding file_loop.simps Let_def sum.case c b if_False ..
qed

lemma file_loop_budget:
  "0 < m \<Longrightarrow> total_chars_processed st < m \<Longrightarrow>
   total_chars_processed st = sent_chars st \<Longrightarrow>
   total_chars_processed (file_loop a cs m nf st rest) \<le> m
   \<and> total_chars_processed (file_loop a cs m nf st rest)
       = sent_chars (file_loop a cs m nf st rest)"
proof (induction rest arbitrary: st)
  case Nil
  then show ?case by simp
next
  case (Cons f rest)
  obtain i rel rd where f: "f = (i, rel, rd)" by (cases f)
  let ?st0 = "st\<lparr>printed_events := printed_events st @ [ProcessingFile (i + 1) nf rel]\<rparr>"
  have inv0: "total_chars_processed ?st0 = sent_chars ?st0"
    and lt0: "total_chars_processed ?st0 < m"
    using Cons.prems by (simp_all add: sent_chars_def)
  show ?case
  proof (cases rd)
    case (Inl e)
    let ?msg = "''Error: Could not read file '' @ rel @ ''. Reason: '' @ e"
    let ?st = "?st0\<lparr>printed_events := printed_events ?st0 @ [ReadFailed ?msg],
                     all_llm_findings := all_llm_findings ?st0 @ [?msg]\<rparr>"
    have eq: "file_loop a cs m nf st (f # rest) = file_loop a cs m nf ?st rest"
      unfolding f Inl by (simp add: Let_def)
    have "total_chars_processed ?st < m" "total_chars_processed ?st = sent_chars ?st"
      using Cons.prems by (simp_all add: sent_chars_def)
    from Cons.IH [OF Cons.prems(1) this] show ?thesis unfolding eq .
  next
    case (Inr content)
    consider (blank) "strip content = []"
      | (skip) "strip content \<noteq> []"
          "m > 0 \<and> total_chars_processed ?st0 + int (length content) > m
           \<and> total_chars_processed ?st0 < m"
      | (run) "strip content \<noteq> []"
          "\<not> (m > 0 \<and> total_chars_processed ?st0 + int (length content) > m
           \<and> total_chars_processed ?st0 < m)"
      by blast
    then show ?thesis
    proof cases
      case blank
      let ?st = "?st0\<lparr>printed_events := printed_events ?st0 @ [SkippingEmptyFile rel]\<rparr>"
      have eq: "file_loop a cs m nf st (f # rest) = file_loop a cs m nf ?st rest"
        unfolding f Inr using blank by (simp add: Let_def)
      have "total_chars_processed ?st < m" "total_chars_processed ?st = sent_chars ?st"
        using Cons.prems by (simp_all add: sent_chars_def)
      from Cons.IH [OF Cons.prems(1) this] show ?thesis unfolding eq .
    next
      case skip
      let ?st = "?st0\<lparr>printed_events := printed_events ?st0
                       @ [WarningFileOverBudget m (int (length content))]\<rparr>"
      have eq: "file_loop a cs m nf st (f # rest) = file_loop a cs m nf ?st rest"
        unfolding f Inr using skip by (simp add: Let_def)
      have "total_chars_processed ?st < m" "total_chars_processed ?st = sent_chars ?st"
        using Cons.prems by (simp_all add: sent_chars_def)
      from Cons.IH [OF Cons.prems(1) this] show ?thesis unfolding eq .
    next
      case run
      let ?chunks = "chunk_content content cs"
      let ?st1 = "chunk_loop a m rel i nf (length ?chunks) ?st0 (enumerate 0 ?chunks)"
      from run(2) have run': "\<not> (m > 0 \<and> total_chars_processed st + int (length content) > m
               \<and> total_chars_processed st < m)" by simp
      have eq: "file_loop a cs m nf st (f # rest)
          = (if m > 0 \<and> total_chars_processed ?st1 \<ge> m then ?st1
             else file_loop a cs m nf ?st1 rest)"
        unfolding f Inr file_loop_run [OF run(1) run'] Let_def ..
      note cl = chunk_loop_sent [OF inv0, of a m rel i nf "length ?chunks" "enumerate 0 ?chunks",
                                  unfolded chunk_content_total]
      have inv1: "total_chars_processed ?st1 = sent_chars ?st1"
        using cl by (rule conjunct1)
      have le1: "total_chars_processed ?st1
                    \<le> total_chars_processed ?st0 + int (length content)"
        using cl by (rule conjunct2)
      from run(2) lt0 Cons.prems(1) have "total_chars_processed ?st0 + int (length content) \<le> m"
        by linarith
      with le1 have le: "total_chars_processed ?st1 \<le> m" by linarith
      show ?thesis
      proof (cases "total_chars_processed ?st1 \<ge> m")
        case True
        with Cons.prems(1) eq have "file_loop a cs m nf st (f # rest) = ?st1" by simp
        with le inv1 show ?thesis by simp
      next
        case False
        with eq have eq': "file_loop a cs m nf st (f # rest) = file_loop a cs m nf ?st1 rest"
          by simp
        from False have "total_chars_processed ?st1 < m" by simp
        from Cons.IH [OF Cons.prems(1) this inv1] show ?thesis unfolding eq' .
      qed
    qed
  qed
qed

lemma sent_chars_bound:
  "(d, c) \<in> set (llm_calls st) \<Longrightarrow> int (length c) \<le> sent_chars st"
proof -
  assume m: "(d, c) \<in> set (llm_calls st)"
  have "\<And>x. x \<in> set (map (\<lambda>(d, c). int (length c)) (llm_calls st)) \<Longrightarrow> 0 \<le> x"
    by auto
  moreover from m have "int (length c) \<in> set (map (\<lambda>(d, c). int (length c)) (llm_calls st))"
    by force
  ultimately show ?thesis unfolding sent_chars_def
    by (meson member_le_sum_list)
qed

lemma file_over_budget_skipped:
  assumes "strip content \<noteq> []" and "0 < m" and "total_chars_processed st < m"
      and "m < total_chars_processed st + int (length content)"
  shows "file_loop a cs m nf st ((i, rel, Inr content) # rest)
       = file_loop a cs m nf
           (st\<lparr>printed_events := printed_events st
                 @ [ProcessingFile (i + 1) nf rel,
                    WarningFileOverBudget m (int (length content))]\<rparr>) rest"
  using assms by (simp add: Let_def)

lemma scan_files_budget:
  assumes "0 < m"
  shows "total_chars_processed (scan_files a cs m fs) \<le> m
       \<and> total_chars_processed (scan_files a cs m fs) = sent_chars (scan_files a cs m fs)"
  unfolding scan_files_def
  by (rule file_loop_budget [OF assms]) (simp_all add: assms sent_chars_def)

lemma three_sixties:
  assumes "map length (chunk_content content cs) = [60, 60, 60]"
  shows "length content = 180"
proof -
  have pos: "0 < cs"
  proof (rule ccontr)
    assume "\<not> 0 < cs"
    with assms show False by (simp add: chunk_content_def)
  qed
  then have "concat (chunk_content content cs) = content"
    using py_range_concat [of "nat cs" content 0] by (simp add: chunk_content_def)
  then have "length content = sum_list (map length (chunk_content content cs))"
    by (metis length_concat)
  with assms show ?thesis by simp
qed

text \<open>
  Claim C1, amended. With a budget of 100 and a single non-empty file whose content chunks
  into three chunks of lengths 60, 60 and 60, no chunk is sent: the check before the file
  skips all 180 characters, and the scan prints the warning. In general neither budget
  check asks for an earlier send: with a finite budget the characters sent never exceed
  the budget, so no chunk longer than the budget is ever sent, the first chunk of a scan
  included.
\<close>

theorem budget_skips_oversized_file:
  "(strip content \<noteq> [] \<and> map length (chunk_content content chunk_size) = [60, 60, 60] \<longrightarrow>
      llm_calls (scan_files analyze chunk_size 100 [(rel, Inr content)]) = []
    \<and> printed_events (scan_files analyze chunk_size 100 [(rel, Inr content)])
        = [ProcessingFile 1 1 rel, WarningFileOverBudget 100 180])
   \<and> (0 < max_total_chars \<longrightarrow>
        sent_chars (scan_files analyze chunk_size max_total_chars files_to_scan)
          \<le> max_total_chars
      \<and> (\<forall>(display, chunk)
            \<in> set (llm_calls (scan_files analyze chunk_size max_total_chars files_to_scan)).
           int (length chunk) \<le> max_total_chars))"
proof (intro conjI impI)
  assume a: "strip content \<noteq> [] \<and> map length (chunk_content content chunk_size) = [60, 60, 60]"
  then have "map length (chunk_content content chunk_size) = [60, 60, 60]" by (rule conjunct2)
  then have len: "length content = 180" by (rule three_sixties)
  let ?st = "\<lparr>all_llm_findings = [], total_chars_processed = 0, llm_calls = [],
              printed_events = []\<rparr>"
  have eq: "scan_files analyze chunk_size 100 [(rel, Inr content)]
      = ?st\<lparr>printed_events := printed_events ?st
             @ [ProcessingFile (0 + 1) (length [(rel, Inr content)]) rel,
                WarningFileOverBudget 100 (int (length content))]\<rparr>"
    unfolding scan_files_def
    using file_over_budget_skipped [of content 100 ?st analyze chunk_size
            "length [(rel, Inr content)]" 0 rel "[]"] a len
    by simp
  show "llm_calls (scan_files analyze chunk_size 100 [(rel, Inr content)]) = []"
    by (subst eq) simp
  show "printed_events (scan_files analyze chunk_size 100 [(rel, Inr content)])
        = [ProcessingFile 1 1 rel, WarningFileOverBudget 100 180]"
    using len by (subst eq) simp
next
  assume m: "0 < max_total_chars"
  let ?r = "scan_files analyze chunk_size max_total_chars files_to_scan"
  from scan_files_budget [OF m, of analyze chunk_size files_to_scan]
  show le: "sent_chars ?r \<le> max_total_chars" by simp
  show "\<forall>(display, chunk) \<in> set (llm_calls ?r). int (length chunk) \<le> max_total_chars"
  proof (intro ballI, clarify)
    fix d c assume "(d, c) \<in> set (llm_calls ?r)"
    from sent_chars_bound [OF this] le show "int (length c) \<le> max_total_chars" by linarith
  qed
qed

theorem budget_skips_oversized_file_witness:
  "strip (replicate 180 CHR ''a'') \<noteq> []
   \<and> map length (chunk_content (replicate 180 CHR ''a'') 60) = [60, 60, 60]
   \<and> llm_calls (scan_files quiet_llm 60 100 [(''a.py'', Inr (replicate 180 CHR ''a''))]) = []
   \<and> printed_events (scan_files quiet_llm 60 100 [(''a.py'', Inr (replicate 180 CHR ''a''))])
       = [ProcessingFile 1 1 ''a.py'', WarningFileOverBudget 100 180]
   \<and> (0::int) < 100
   \<and> sent_chars (scan_files quiet_llm 60 100
         [(''a.py'', Inr (replicate 90 CHR ''a'')), (''b.py'', Inr (replicate 20 CHR ''b''))])
       \<le> 100"
proof -
  have h1: "strip (replicate 180 CHR ''a'') \<noteq> []" by code_simp
  have h2: "map length (chunk_content (replicate 180 CHR ''a'') 60) = [60, 60, 60]"
    by code_simp
  have h3: "(0::int) < 100" by simp
  note t = budget_skips_oversized_file
      [where content = "replicate 180 CHR ''a''" and chunk_size = 60 and analyze = quiet_llm
         and rel = "''a.py''" and max_total_chars = 100
         and files_to_scan = "[(''a.py'', Inr (replicate 90 CHR ''a'')),
                               (''b.py'', Inr (replicate 20 CHR ''b''))]"]
  from t h1 h2 have c1:
    "llm_calls (scan_files quiet_llm 60 100 [(''a.py'', Inr (replicate 180 CHR ''a''))]) = []
     \<and> printed_events (scan_files quiet_llm 60 100 [(''a.py'', Inr (replicate 180 CHR ''a''))])
       = [ProcessingFile 1 1 ''a.py'', WarningFileOverBudget 100 180]"
    by blast
  from t h3 have c2: "sent_chars (scan_files quiet_llm 60 100
         [(''a.py'', Inr (replicate 90 CHR ''a'')), (''b.py'', Inr (replicate 20 CHR ''b''))])
       \<le> 100"
    by blast
  from h1 h2 h3 c1 c2 show ?thesis by blast
qed

text \<open>
  Claim C1, as stated, fails: for three chunks of 60 under a budget of 100 the scan sends
  no chunk, not two; and a first chunk of 150 characters (no chunking) under the same
  budget is not sent either.
\<close>

theorem budget_sends_no_chunk_of_three:
  "strip (replicate 180 CHR ''a'') \<noteq> []
   \<and> map length (chunk_content (replicate 180 CHR ''a'') 60) = [60, 60, 60]
   \<and> length (llm_calls (scan_files quiet_llm 60 100
               [(''a.py'', Inr (replicate 180 CHR ''a''))])) \<noteq> 2
   \<and> llm_calls (scan_files quiet_llm 0 100 [(''a.py'', Inr (replicate 150 CHR ''a''))]) = []"
  by code_simp

text \<open>
  Claim C2, as stated, fails: the check before a file does not look at whether anything
  was sent. The first file of a scan, 180 characters under a budget of 100, is skipped
  with the warning, and the scan goes on to the next file.
\<close>

theorem first_file_pre_skipped:
  "strip (replicate 180 CHR ''a'') \<noteq> [] \<and> (0::int) < 100
   \<and> printed_events (scan_files quiet_llm 60 100
        [(''a.py'', Inr (replicate 180 CHR ''a'')), (''b.py'', Inr (replicate 20 CHR ''b''))])
       = [ProcessingFile 1 2 ''a.py'', WarningFileOverBudget 100 180,
          ProcessingFile 2 2 ''b.py'', AnalyzingChunk 1 1 20]
   \<and> map snd (llm_calls (scan_files quiet_llm 60 100
        [(''a.py'', Inr (replicate 180 CHR ''a'')), (''b.py'', Inr (replicate 20 CHR ''b''))]))
       = [replicate 20 CHR ''b'']"
  by code_simp

text \<open>
  Claim C2, amended. With a finite budget the check before a file skips a non-empty file
  whenever the running total is below the budget and the total plus the file's whole
  length exceeds it; this includes the very first file of a scan, with the total still
  zero, whenever its length alone exceeds the budget. A file whose length fits the
  remaining budget is not skipped by this check: it is chunked and its chunks go through
  the chunk loop.
\<close>

theorem first_file_over_budget_is_skipped:
  assumes "strip content \<noteq> []" and "0 < max_total_chars"
  shows "(total_chars_processed st < max_total_chars
          \<and> max_total_chars < total_chars_processed st + int (length content) \<longrightarrow>
            file_loop analyze chunk_size max_total_chars n_files st
              ((i, rel, Inr content) # rest)
            = file_loop analyze chunk_size max_total_chars n_files
                (st\<lparr>printed_events := printed_events st
                      @ [ProcessingFile (i + 1) n_files rel,
                         WarningFileOverBudget max_total_chars (int (length content))]\<rparr>) rest)
       \<and> (max_total_chars < int (length content) \<longrightarrow>
            scan_files analyze chunk_size max_total_chars ((rel, Inr content) # others)
            = file_loop analyze chunk_size max_total_chars (Suc (length others))
                \<lparr>all_llm_findings = [], total_chars_processed = 0, llm_calls = [],
                 printed_events =
                   [ProcessingFile 1 (Suc (length others)) rel,
                    WarningFileOverBudget max_total_chars (int (length content))]\<rparr>
                (enumerate 1 others))
       \<and> (total_chars_processed st + int (length content) \<le> max_total_chars \<longrightarrow>
            file_loop analyze chunk_size max_total_chars n_files st
              ((i, rel, Inr content) # rest)
            = (let st1 = chunk_loop analyze max_total_chars rel i n_files
                           (length (chunk_content content chunk_size))
                           (st\<lparr>printed_events :=
                                  printed_events st @ [ProcessingFile (i + 1) n_files rel]\<rparr>)
                           (enumerate 0 (chunk_content content chunk_size))
               in if max_total_chars > 0 \<and> total_chars_processed st1 \<ge> max_total_chars
                  then st1
                  else file_loop analyze chunk_size max_total_chars n_files st1 rest))"
proof (intro conjI impI)
  assume "total_chars_processed st < max_total_chars
          \<and> max_total_chars < total_chars_processed st + int (length content)"
  then show "file_loop analyze chunk_size max_total_chars n_files st
              ((i, rel, Inr content) # rest)
            = file_loop analyze chunk_size max_total_chars n_files
                (st\<lparr>printed_events := printed_events st
                      @ [ProcessingFile (i + 1) n_files rel,
                         WarningFileOverBudget max_total_chars (int (length content))]\<rparr>) rest"
    using file_over_budget_skipped [OF assms, of st] by blast
next
  assume big: "max_total_chars < int (length content)"
  let ?st = "\<lparr>all_llm_findings = [], total_chars_processed = 0, llm_calls = [],
              printed_events = []\<rparr>"
  have "file_loop analyze chunk_size max_total_chars (Suc (length others)) ?st
          ((0, rel, Inr content) # enumerate 1 others)
        = file_loop analyze chunk_size max_total_chars (Suc (length others))
            (?st\<lparr>printed_events := printed_events ?st
                  @ [ProcessingFile (0 + 1) (Suc (length others)) rel,
                     WarningFileOverBudget max_total_chars (int (length content))]\<rparr>)
            (enumerate 1 others)"
    using big assms(2) by (intro file_over_budget_skipped [OF assms]) simp_all
  then show "scan_files analyze chunk_size max_total_chars ((rel, Inr content) # others)
            = file_loop analyze chunk_size max_total_chars (Suc (length others))
                \<lparr>all_llm_findings = [], total_chars_processed = 0, llm_calls = [],
                 printed_events =
                   [ProcessingFile 1 (Suc (length others)) rel,
                    WarningFileOverBudget max_total_chars (int (length content))]\<rparr>
                (enumerate 1 others)"
    unfolding scan_files_def by (simp del: file_loop.simps)
next
  assume "total_chars_processed st + int (length content) \<le> max_total_chars"
  then have "\<not> (max_total_chars > 0
               \<and> total_chars_processed st + int (length content) > max_total_chars
               \<and> total_chars_processed st < max_total_chars)" by simp
  from file_loop_run [OF assms(1) this]
  show "file_loop analyze chunk_size max_total_chars n_files st
              ((i, rel, Inr content) # rest)
            = (let st1 = chunk_loop analyze max_total_chars rel i n_files
                           (length (chunk_content content chunk_size))
                           (st\<lparr>printed_events :=
                                  printed_events st @ [ProcessingFile (i + 1) n_files rel]\<rparr>)
                           (enumerate 0 (chunk_content content chunk_size))
               in if max_total_chars > 0 \<and> total_chars_processed st1 \<ge> max_total_chars
                  then st1
                  else file_loop analyze chunk_size max_total_chars n_files st1 rest)" .
qed

theorem first_file_over_budget_is_skipped_witness:
  "strip (replicate 180 CHR ''a'') \<noteq> [] \<and> (0::int) < 100
   \<and> (100::int) < int (length (replicate 180 CHR ''a''))
   \<and> scan_files quiet_llm 60 100
         [(''a.py'', Inr (replicate 180 CHR ''a'')), (''b.py'', Inr (replicate 20 CHR ''b''))]
       = file_loop quiet_llm 60 100 2
           \<lparr>all_llm_findings = [], total_chars_processed = 0, llm_calls = [],
            printed_events = [ProcessingFile 1 2 ''a.py'', WarningFileOverBudget 100 180]\<rparr>
           [(1, ''b.py'', Inr (replicate 20 CHR ''b''))]
   \<and> total_chars_processed
         \<lparr>all_llm_findings = [], total_chars_processed = 90, llm_calls = [],
          printed_events = []\<rparr> < (100::int)
   \<and> file_loop quiet_llm 60 100 2
         \<lparr>all_llm_findings = [], total_chars_processed = 90, llm_calls = [],
          printed_events = []\<rparr>
         [(1, ''b.py'', Inr (replicate 20 CHR ''b''))]
       = \<lparr>all_llm_findings = [], total_chars_processed = 90, llm_calls = [],
          printed_events = [ProcessingFile 2 2 ''b.py'', WarningFileOverBudget 100 20]\<rparr>"
proof -
  let ?st = "\<lparr>all_llm_findings = [], total_chars_processed = 90, llm_calls = [],
          printed_events = []\<rparr>"
  have h1: "strip (replicate 180 CHR ''a'') \<noteq> []" by code_simp
  have h1b: "strip (replicate 20 CHR ''b'') \<noteq> []" by code_simp
  have h2: "(0::int) < 100" by simp
  have h3: "(100::int) < int (length (replicate 180 CHR ''a''))" by simp
  have h4: "total_chars_processed ?st < (100::int)" by simp
  have h5: "(100::int) < total_chars_processed ?st + int (length (replicate 20 CHR ''b''))"
    by simp
  note c1 = first_file_over_budget_is_skipped
      [OF h1 h2, where analyze = quiet_llm and chunk_size = 60 and rel = "''a.py''"
         and others = "[(''b.py'', Inr (replicate 20 CHR ''b''))]",
       THEN conjunct2, THEN conjunct1, THEN mp, OF h3]
  have c1': "scan_files quiet_llm 60 100
         [(''a.py'', Inr (replicate 180 CHR ''a'')), (''b.py'', Inr (replicate 20 CHR ''b''))]
       = file_loop quiet_llm 60 100 2
           \<lparr>all_llm_findings = [], total_chars_processed = 0, llm_calls = [],
            printed_events = [ProcessingFile 1 2 ''a.py'', WarningFileOverBudget 100 180]\<rparr>
           [(1, ''b.py'', Inr (replicate 20 CHR ''b''))]"
    by (subst c1) (simp del: file_loop.simps add: numeral_2_eq_2)
  note c2 = first_file_over_budget_is_skipped
      [OF h1b h2, where analyze = quiet_llm and chunk_size = 60 and rel = "''b.py''"
         and st = ?st and i = 1 and n_files = 2 and rest = "[]",
       THEN conjunct1, THEN mp, OF conjI [OF h4 h5]]
  have c2': "file_loop quiet_llm 60 100 2 ?st [(1, ''b.py'', Inr (replicate 20 CHR ''b''))]
       = \<lparr>all_llm_findings = [], total_chars_processed = 90, llm_calls = [],
          printed_events = [ProcessingFile 2 2 ''b.py'', WarningFileOverBudget 100 20]\<rparr>"
    by (subst c2) simp
  from h1 h2 h3 h4 c1' c2' show ?thesis by blast
qed

section \<open>Properties of the discoverer\<close>

lemma os_walk_dirpath:
  "(dp, dn, fn) \<in> set (os_walk keep dirpath t) \<Longrightarrow>
   (\<exists>rel. dp = dirpath @ rel \<and> (\<forall>seg \<in> set rel. keep seg)) \<and> (\<forall>d \<in> set dn. keep d)"
proof (induction keep dirpath t arbitrary: dp dn fn rule: os_walk.induct)
  case (1 keep dirpath subs fs)
  from "1.prems" consider
    (here) "dp = dirpath" "dn = filter keep (map fst subs)"
    | (below) d t where "(d, t) \<in> set subs" "keep d"
        "(dp, dn, fn) \<in> set (os_walk keep (dirpath @ [d]) t)"
    by auto
  then show ?case
  proof cases
    case here
    then show ?thesis by simp
  next
    case below
    from below(1,2) have "(d, t) \<in> set (filter (\<lambda>(d, t). keep d) subs)" by simp
    from "1.IH" [OF this refl below(3)] obtain rel where
      "dp = (dirpath @ [d]) @ rel" "\<forall>seg \<in> set rel. keep seg" "\<forall>d \<in> set dn. keep d"
      by blast
    with below(2) show ?thesis by (intro conjI exI [of _ "d # rel"]) simp_all
  qed
qed

lemma relative_to_append: "relative_to (root_dir @ rel) root_dir = Inr rel"
  by (simp add: relative_to_def)

text \<open>
  Claim C4. For every root directory \<open>D\<close>, every directory tree below it and every
  exclusion pattern set \<open>P\<close> (the defaults and the caller's normalised additions), every
  file the discoverer returns lies below \<open>D\<close> and none of the directory segments between
  \<open>D\<close> and the file's own name is, lowercased, a member of \<open>P\<close>. Excluded directories
  are pruned before the discoverer descends: every directory its loop lists lies below
  \<open>D\<close> by segments outside \<open>P\<close>, and so does every name it keeps for descending.
\<close>

theorem discovered_files_avoid_excluded_directories:
  fixes exclude_files_cli :: "string list option"
  defines "P \<equiv> DEFAULT_EXCLUDED_FILENAMES_PATTERNS \<union> normalize_patterns exclude_files_cli"
  shows "(\<forall>file_path \<in> set (fst (discover_code_files D tree include_ext_cli exclude_ext_cli
                                     exclude_files_cli)).
            \<exists>rel. relative_to file_path D = Inr rel \<and> rel \<noteq> []
                  \<and> (\<forall>seg \<in> set (butlast rel). lower seg \<notin> P))
       \<and> (\<forall>(dirpath, dirnames, filenames)
             \<in> set (snd (discover_code_files D tree include_ext_cli exclude_ext_cli
                           exclude_files_cli)).
            (\<exists>rel. relative_to dirpath D = Inr rel \<and> (\<forall>seg \<in> set rel. lower seg \<notin> P))
            \<and> (\<forall>d \<in> set dirnames. lower d \<notin> P))"
proof (intro conjI ballI)
  fix file_path
  assume "file_path \<in> set (fst (discover_code_files D tree include_ext_cli exclude_ext_cli
                                     exclude_files_cli))"
  then obtain dirpath dirnames filenames filename where
    w: "(dirpath, dirnames, filenames) \<in> set (os_walk (\<lambda>d. \<not> should_prune_dir d P) D tree)"
    and fp: "file_path = dirpath @ [filename]"
    unfolding discover_code_files_def Let_def P_def
    by (auto split: if_splits)
  from os_walk_dirpath [OF w] obtain rel where
    rel: "dirpath = D @ rel" "\<forall>seg \<in> set rel. \<not> should_prune_dir seg P" by blast
  have "relative_to file_path D = Inr (rel @ [filename])"
    unfolding fp rel(1) using relative_to_append [of D "rel @ [filename]"] by simp
  moreover have "\<forall>seg \<in> set (butlast (rel @ [filename])). lower seg \<notin> P"
    using rel(2) by (simp add: should_prune_dir_def)
  ultimately show "\<exists>rel. relative_to file_path D = Inr rel \<and> rel \<noteq> []
                  \<and> (\<forall>seg \<in> set (butlast rel). lower seg \<notin> P)"
    by blast
next
  fix x
  assume "x \<in> set (snd (discover_code_files D tree include_ext_cli exclude_ext_cli
                           exclude_files_cli))"
  then have x: "x \<in> set (os_walk (\<lambda>d. \<not> should_prune_dir d P) D tree)"
    unfolding discover_code_files_def Let_def P_def by simp
  obtain dirpath dirnames filenames where t: "x = (dirpath, dirnames, filenames)"
    by (cases x) auto
  from os_walk_dirpath [OF x [unfolded t]] obtain rel where
    rel: "dirpath = D @ rel" "\<forall>seg \<in> set rel. \<not> should_prune_dir seg P"
    and dn: "\<forall>d \<in> set dirnames. \<not> should_prune_dir d P" by blast
  have a: "\<exists>rel. relative_to dirpath D = Inr rel \<and> (\<forall>seg \<in> set rel. lower seg \<notin> P)"
    using rel relative_to_append [of D rel] by (auto simp: should_prune_dir_def)
  have b: "\<forall>d \<in> set dirnames. lower d \<notin> P"
    using dn by (simp add: should_prune_dir_def)
  from a b show "case x of (dirpath, dirnames, filenames) \<Rightarrow>
            (\<exists>rel. relative_to dirpath D = Inr rel \<and> (\<forall>seg \<in> set rel. lower seg \<notin> P))
            \<and> (\<forall>d \<in> set dirnames. lower d \<notin> P)"
    unfolding t by simp
qed

theorem discovered_files_avoid_excluded_directories_witness:
  "discover_code_files [''r'']
     (Dir [(''node_modules'', Dir [] [''b.js'']),
           (''src'', Dir [(''Build'', Dir [] [''x.py''])] [''m.py''])]
          [''a.py'', ''a.pyc'']) None None None
     = ([[''r'', ''a.py''], [''r'', ''src'', ''m.py'']],
        [([''r''], [''src''], [''a.py'', ''a.pyc'']),
         ([''r'', ''src''], [], [''m.py''])])
   \<and> relative_to [''r'', ''src'', ''m.py''] [''r''] = Inr [''src'', ''m.py'']
   \<and> relative_to [''r'', ''src''] [''r''] = Inr [''src'']
   \<and> lower ''src'' \<notin> DEFAULT_EXCLUDED_FILENAMES_PATTERNS \<union> normalize_patterns None
   \<and> lower ''node_modules'' \<in> DEFAULT_EXCLUDED_FILENAMES_PATTERNS \<union> normalize_patterns None
   \<and> lower ''Build'' \<in> DEFAULT_EXCLUDED_FILENAMES_PATTERNS \<union> normalize_patterns None"
proof -
  let ?tree = "Dir [(''node_modules'', Dir [] [''b.js'']),
           (''src'', Dir [(''Build'', Dir [] [''x.py''])] [''m.py''])]
          [''a.py'', ''a.pyc'']"
  let ?P = "DEFAULT_EXCLUDED_FILENAMES_PATTERNS \<union> normalize_patterns None"
  have e: "discover_code_files [''r''] ?tree None None None
     = ([[''r'', ''a.py''], [''r'', ''src'', ''m.py'']],
        [([''r''], [''src''], [''a.py'', ''a.pyc'']),
         ([''r'', ''src''], [], [''m.py''])])"
    by code_simp
  have r: "relative_to [''r'', ''src'', ''m.py''] [''r''] = Inr [''src'', ''m.py'']"
    by code_simp
  have rd: "relative_to [''r'', ''src''] [''r''] = Inr [''src'']"
    by code_simp
  have n: "lower ''node_modules'' \<in> ?P" by code_simp
  have b: "lower ''Build'' \<in> ?P" by code_simp
  note t = discovered_files_avoid_excluded_directories
         [where D = "[''r'']" and tree = ?tree and include_ext_cli = None
            and exclude_ext_cli = None and exclude_files_cli = None]
  have m: "[''r'', ''src'', ''m.py'']
      \<in> set (fst (discover_code_files [''r''] ?tree None None None))"
    unfolding e by simp
  from t [THEN conjunct1, THEN bspec, OF m]
  obtain rel where rel: "relative_to [''r'', ''src'', ''m.py''] [''r''] = Inr rel"
    and segs: "\<forall>seg \<in> set (butlast rel). lower seg \<notin> ?P"
    by blast
  from rel r have "rel = [''src'', ''m.py'']" by simp
  with segs have file_ok: "lower ''src'' \<notin> ?P" by simp
  have v: "([''r'', ''src''], [], [''m.py''])
      \<in> set (snd (discover_code_files [''r''] ?tree None None None))"
    unfolding e by simp
  from t [THEN conjunct2, THEN bspec, OF v]
  obtain rel' where rel': "relative_to [''r'', ''src''] [''r''] = Inr rel'"
    and segs': "\<forall>seg \<in> set rel'. lower seg \<notin> ?P"
    by auto
  from rel' rd have "rel' = [''src'']" by simp
  with segs' have dir_ok: "lower ''src'' \<notin> ?P" by simp
  from e r rd file_ok dir_ok n b show ?thesis by blast
qed

end
